theory Spec2Isabelle
  imports Main "HOL-Library.Sublist" "HOL-Library.Multiset" "HOL-Library.Product_Lexorder"
begin

section \<open>JavaScript strings\<close>

text \<open>
  A string is the list of its code units. The model covers the code units below 256
  (ASCII and Latin-1), which is what \<^typ>\<open>char\<close> holds. The string methods used by
  \<^verbatim>\<open>todo-utils.ts\<close> and \<^verbatim>\<open>worktree-utils.ts\<close> are total on strings; each is given
  here once and used by name below.
\<close>

definition nl :: char where
  "nl = CHR 0x0A"

definition dquote :: char where
  "dquote = CHR 0x22"

definition squote :: char where
  "squote = CHR 0x27"

text \<open>Line terminators (what \<^verbatim>\<open>.\<close> refuses and where \<^verbatim>\<open>^\<close>, \<^verbatim>\<open>$\<close> anchor under the m flag).\<close>

definition is_lt :: "char \<Rightarrow> bool" where
  "is_lt c = (c = CHR 0x0A \<or> c = CHR 0x0D)"

text \<open>White space in the sense of \<^verbatim>\<open>trim\<close> and \<^verbatim>\<open>\s\<close>: tab, LF, VT, FF, CR, space, NBSP.\<close>

definition is_ws :: "char \<Rightarrow> bool" where
  "is_ws c = (c = CHR 0x09 \<or> c = CHR 0x0A \<or> c = CHR 0x0B \<or> c = CHR 0x0C \<or> c = CHR 0x0D
     \<or> c = CHR 0x20 \<or> c = CHR 0xA0)"

definition trim :: "string \<Rightarrow> string" where
  "trim s = rev (dropWhile is_ws (rev (dropWhile is_ws s)))"

definition startsWith :: "string \<Rightarrow> string \<Rightarrow> bool" where
  "startsWith s p = prefix p s"

definition endsWith :: "string \<Rightarrow> string \<Rightarrow> bool" where
  "endsWith s p = suffix p s"

definition includes_str :: "string \<Rightarrow> string \<Rightarrow> bool" where
  "includes_str s p = sublist p s"

text \<open>\<^verbatim>\<open>s.slice(1, -1)\<close>: the string without its first and last code unit.\<close>

definition slice1 :: "string \<Rightarrow> string" where
  "slice1 s = butlast (tl s)"

text \<open>\<^verbatim>\<open>s.split(c)\<close> for a separator of one code unit: never the empty list.\<close>

fun split_char :: "char \<Rightarrow> string \<Rightarrow> string list" where
  "split_char c [] = [[]]"
| "split_char c (x # xs) =
     (if x = c then [] # split_char c xs
      else (case split_char c xs of [] \<Rightarrow> [[x]] | l # ls \<Rightarrow> (x # l) # ls))"

text \<open>\<^verbatim>\<open>xs.join(sep)\<close>.\<close>

fun join :: "string \<Rightarrow> string list \<Rightarrow> string" where
  "join sep [] = []"
| "join sep [x] = x"
| "join sep (x # y # ys) = x @ sep @ join sep (y # ys)"

text \<open>
  The first occurrence of \<open>sep\<close> in a string: the text before it and the text after it.
  This is how a lazy \<^verbatim>\<open>([\s\S]*?)\<close> followed by a literal and a final \<^verbatim>\<open>([\s\S]*)$\<close> match.
\<close>

fun split_first :: "string \<Rightarrow> string \<Rightarrow> (string \<times> string) option" where
  "split_first sep [] = (if sep = [] then Some ([], []) else None)"
| "split_first sep (c # cs) =
     (if prefix sep (c # cs) then Some ([], drop (length sep) (c # cs))
      else map_option (\<lambda>(a, b). (c # a, b)) (split_first sep cs))"

text \<open>\<^verbatim>\<open>toLowerCase\<close> on code units below 256: A-Z, and the Latin-1 capitals except the
  multiplication sign.\<close>

definition lower_char :: "char \<Rightarrow> char" where
  "lower_char c =
     (let n = of_char c :: int in
      if (65 \<le> n \<and> n \<le> 90) \<or> (192 \<le> n \<and> n \<le> 222 \<and> n \<noteq> 215) then char_of (n + 32) else c)"

definition toLowerCase :: "string \<Rightarrow> string" where
  "toLowerCase s = map lower_char s"

section \<open>Front matter\<close>

text \<open>
  A front-matter value after parsing is a string or an array of strings. A front-matter
  object is the list of its own properties in insertion order; a property is read with
  \<^const>\<open>map_of\<close>, which gives \<open>None\<close> for \<^verbatim>\<open>undefined\<close>.
\<close>

datatype fmval = Str string | Arr "string list"

type_synonym frontmatter = "(string \<times> fmval) list"

text \<open>
  \<^verbatim>\<open>frontmatter[key] = value\<close>: an existing property keeps its place, a new one goes last.
  The key \<^verbatim>\<open>__proto__\<close> reaches the setter of \<^verbatim>\<open>Object.prototype\<close> and creates no
  own property.
\<close>

fun assign :: "frontmatter \<Rightarrow> string \<Rightarrow> fmval \<Rightarrow> frontmatter" where
  "assign [] k v = [(k, v)]"
| "assign ((k', v') # fm) k v = (if k' = k then (k, v) # fm else (k', v') # assign fm k v)"

definition set_prop :: "frontmatter \<Rightarrow> string \<Rightarrow> fmval \<Rightarrow> frontmatter" where
  "set_prop fm k v = (if k = ''__proto__'' then fm else assign fm k v)"

text \<open>\<^verbatim>\<open>s.replace(/^["']|["']$/g, "")\<close>: one leading quote and one trailing quote go.\<close>

definition is_quote :: "char \<Rightarrow> bool" where
  "is_quote c = (c = dquote \<or> c = squote)"

definition strip_quotes :: "string \<Rightarrow> string" where
  "strip_quotes s =
     (let s1 = (case s of [] \<Rightarrow> [] | c # cs \<Rightarrow> if is_quote c then cs else s)
      in if s1 \<noteq> [] \<and> is_quote (last s1) then butlast s1 else s1)"

definition parse_value :: "string \<Rightarrow> fmval" where
  "parse_value v =
     (if startsWith v ''['' then
        Arr (map (\<lambda>s. strip_quotes (trim s)) (split_char CHR '','' (slice1 v)))
      else if startsWith v [dquote] then Str (slice1 v)
      else Str v)"

text \<open>One iteration of the loop over the lines of the block (lines 80 to 100).\<close>

definition parse_line :: "frontmatter \<Rightarrow> string \<Rightarrow> frontmatter" where
  "parse_line fm line =
     (if CHR '':'' \<notin> set line then fm
      else
        let key = trim (takeWhile (\<lambda>c. c \<noteq> CHR '':'') line);
            v = trim (drop 1 (dropWhile (\<lambda>c. c \<noteq> CHR '':'') line))
        in if v = [] then fm else set_prop fm key (parse_value v))"

definition parse_yaml :: "string \<Rightarrow> frontmatter" where
  "parse_yaml yamlStr = foldl parse_line [] (split_char nl yamlStr)"

text \<open>\<^verbatim>\<open>content.match(/^---\n([\s\S]*?)\n---\n([\s\S]*)$/)\<close>: groups 1 and 2, or no match.\<close>

definition match_frontmatter :: "string \<Rightarrow> (string \<times> string) option" where
  "match_frontmatter content =
     (if prefix [CHR ''-'', CHR ''-'', CHR ''-'', nl] content
      then split_first [nl, CHR ''-'', CHR ''-'', CHR ''-'', nl] (drop 4 content)
      else None)"

definition default_frontmatter :: frontmatter where
  "default_frontmatter = [(''status'', Str ''pending''), (''priority'', Str ''p3'')]"

definition parseFrontmatter :: "string \<Rightarrow> frontmatter \<times> string" where
  "parseFrontmatter content =
     (case match_frontmatter content of
        None \<Rightarrow> (default_frontmatter, content)
      | Some (yamlStr, body) \<Rightarrow> (parse_yaml yamlStr, body))"

text \<open>
  What it means for a text to begin with a delimited block, in the words of the file
  format: a line \<^verbatim>\<open>---\<close>, the block, a line \<^verbatim>\<open>---\<close>, the body.
\<close>

definition has_block :: "string \<Rightarrow> bool" where
  "has_block content =
     (\<exists>yamlStr body. content =
        [CHR ''-'', CHR ''-'', CHR ''-'', nl] @ yamlStr @ [nl, CHR ''-'', CHR ''-'', CHR ''-'', nl] @ body)"

section \<open>Serialising front matter\<close>

text \<open>
  \<^verbatim>\<open>Object.entries\<close> lists the own properties whose key is an array index (a canonical
  decimal numeral below \<open>2^32 - 1\<close>) first, in ascending numeric order, and then the
  other keys in insertion order.
\<close>

definition is_digit :: "char \<Rightarrow> bool" where
  "is_digit c = (48 \<le> (of_char c :: int) \<and> (of_char c :: int) \<le> 57)"

text \<open>The value of a string of decimal digits.\<close>

definition dec_value :: "string \<Rightarrow> int" where
  "dec_value s = foldl (\<lambda>n c. 10 * n + ((of_char c :: int) - 48)) 0 s"

definition is_array_index :: "string \<Rightarrow> bool" where
  "is_array_index k =
     (k \<noteq> [] \<and> (\<forall>c \<in> set k. is_digit c) \<and> (k = ''0'' \<or> hd k \<noteq> CHR ''0'')
      \<and> dec_value k < 2 ^ 32 - 1)"

definition entries :: "frontmatter \<Rightarrow> (string \<times> fmval) list" where
  "entries fm =
     sort_key (\<lambda>(k, v). dec_value k) (filter (\<lambda>(k, v). is_array_index k) fm)
     @ filter (\<lambda>(k, v). \<not> is_array_index k) fm"

text \<open>One line of \<^verbatim>\<open>serializeFrontmatter\<close> (lines 113 to 119).\<close>

fun serialize_entry :: "string \<times> fmval \<Rightarrow> string" where
  "serialize_entry (k, Arr vs) =
     k @ '': ['' @ join '', '' (map (\<lambda>v. [dquote] @ v @ [dquote]) vs) @ '']''"
| "serialize_entry (k, Str v) =
     (if CHR '' '' \<in> set v then k @ '': '' @ [dquote] @ v @ [dquote] else k @ '': '' @ v)"

definition serializeFrontmatter :: "frontmatter \<Rightarrow> string" where
  "serializeFrontmatter fm = join [nl] (map serialize_entry (entries fm))"

text \<open>The text of a file: \<^verbatim>\<open>`---\n${serializeFrontmatter(frontmatter)}\n---\n${body}`\<close>.\<close>

definition render :: "frontmatter \<Rightarrow> string \<Rightarrow> string" where
  "render fm body =
     [CHR ''-'', CHR ''-'', CHR ''-'', nl] @ serializeFrontmatter fm
     @ [nl, CHR ''-'', CHR ''-'', CHR ''-'', nl] @ body"

section \<open>File names and titles\<close>

text \<open>\<^verbatim>\<open>\w\<close> is a letter, a digit or the underscore.\<close>

definition is_word :: "char \<Rightarrow> bool" where
  "is_word c =
     (let n = of_char c :: int in
      (48 \<le> n \<and> n \<le> 57) \<or> (65 \<le> n \<and> n \<le> 90) \<or> (97 \<le> n \<and> n \<le> 122) \<or> n = 95)"

text \<open>
  \<^verbatim>\<open>filename.match(/^(\d+)-(\w+)-(p[123])-(.+)\.md$/)\<close>. The digits and the word are
  followed by a hyphen, which is neither a digit nor a word character, so each group is
  the longest run; the last group is what stands before the final \<^verbatim>\<open>.md\<close> and holds
  no line terminator. The result is the groups (number, status, priority, slug).
\<close>

definition match_filename :: "string \<Rightarrow> (string \<times> string \<times> string \<times> string) option" where
  "match_filename fname =
     (let num = takeWhile is_digit fname; r1 = dropWhile is_digit fname in
      case r1 of
        [] \<Rightarrow> None
      | h1 # r2 \<Rightarrow>
          let st = takeWhile is_word r2; r3 = dropWhile is_word r2 in
          (case r3 of
             h2 # p # d # h3 # r5 \<Rightarrow>
               if num \<noteq> [] \<and> h1 = CHR ''-'' \<and> st \<noteq> [] \<and> h2 = CHR ''-'' \<and> p = CHR ''p''
                  \<and> (d = CHR ''1'' \<or> d = CHR ''2'' \<or> d = CHR ''3'') \<and> h3 = CHR ''-''
                  \<and> suffix ''.md'' r5 \<and> 3 < length r5 \<and> (\<forall>c \<in> set r5. \<not> is_lt c)
               then Some (num, st, [p, d], take (length r5 - 3) r5)
               else None
           | _ \<Rightarrow> None))"

definition parseFilename :: "string \<Rightarrow> string \<times> string \<times> string \<times> string" where
  "parseFilename fname =
     (case match_filename fname of
        None \<Rightarrow> (''000'', ''unknown'', ''p3'', fname)
      | Some groups \<Rightarrow> groups)"

definition buildFilename :: "string \<Rightarrow> string \<Rightarrow> string \<Rightarrow> string \<Rightarrow> string" where
  "buildFilename num st pri slg = num @ ''-'' @ st @ ''-'' @ pri @ ''-'' @ slg @ ''.md''"

text \<open>
  \<^verbatim>\<open>content.match(/^#\s+(.+)$/m)\<close>, tried at one line start. After the hash the white
  space is taken as long as it goes. If text follows, the group is the rest of that line.
  If the white space runs to the end of the text, the match backtracks and the group is
  one white-space character that is no line terminator, when there is one after the
  first white-space character.
\<close>

definition title_at :: "string \<Rightarrow> string option" where
  "title_at s =
     (case s of
        [] \<Rightarrow> None
      | c # rest \<Rightarrow>
          if c \<noteq> CHR ''#'' then None
          else
            let w = takeWhile is_ws rest; r = dropWhile is_ws rest in
            if w = [] then None
            else if r \<noteq> [] then Some (takeWhile (\<lambda>x. \<not> is_lt x) r)
            else (case filter (\<lambda>x. \<not> is_lt x) (tl w) of [] \<Rightarrow> None | xs \<Rightarrow> Some [last xs]))"

text \<open>The line starts are the start of the text and every place after a line terminator.\<close>

fun title_scan :: "bool \<Rightarrow> string \<Rightarrow> string option" where
  "title_scan at_start [] = None"
| "title_scan at_start (c # cs) =
     (case (if at_start then title_at (c # cs) else None) of
        Some t \<Rightarrow> Some t
      | None \<Rightarrow> title_scan (is_lt c) cs)"

definition extractTitle :: "string \<Rightarrow> string" where
  "extractTitle body = (case title_scan True body of None \<Rightarrow> ''Untitled'' | Some t \<Rightarrow> trim t)"

section \<open>The todos directory\<close>

text \<open>
  The directory is the list of its files, name and text, in the order \<^verbatim>\<open>readdir\<close>
  gives them. Names are plain (no slash), as \<^verbatim>\<open>readdir\<close> returns them. The path
  \<^verbatim>\<open>join(TODOS_DIR, filename)\<close> is determined by the name and is left out of the records.
\<close>

type_synonym dir = "(string \<times> string) list"

datatype js_error = TypeError string | ENOENT string | CommandFailed string

definition readFile :: "dir \<Rightarrow> string \<Rightarrow> js_error + string" where
  "readFile d fname = (case map_of d fname of None \<Rightarrow> Inl (ENOENT fname) | Some txt \<Rightarrow> Inr txt)"

text \<open>\<^verbatim>\<open>writeFile\<close> replaces the text of a file or creates the file.\<close>

fun writeFile :: "dir \<Rightarrow> string \<Rightarrow> string \<Rightarrow> dir" where
  "writeFile [] fname txt = [(fname, txt)]"
| "writeFile ((f, t) # d) fname txt =
     (if f = fname then (fname, txt) # d else (f, t) # writeFile d fname txt)"

text \<open>\<^verbatim>\<open>rename\<close> moves a file and replaces a file that has the new name.\<close>

definition rename :: "dir \<Rightarrow> string \<Rightarrow> string \<Rightarrow> js_error + dir" where
  "rename d old new =
     (case map_of d old of
        None \<Rightarrow> Inl (ENOENT old)
      | Some txt \<Rightarrow>
          if old = new then Inr d
          else Inr (filter (\<lambda>(f, t). f \<noteq> old \<and> f \<noteq> new) d @ [(new, txt)]))"

text \<open>The file-system calls a command makes, in the order it makes them.\<close>

datatype fs_op = WriteOp string string | RenameOp string string

fun apply_op :: "dir \<Rightarrow> fs_op \<Rightarrow> js_error + dir" where
  "apply_op d (WriteOp fname txt) = Inr (writeFile d fname txt)"
| "apply_op d (RenameOp old new) = rename d old new"

fun apply_ops :: "dir \<Rightarrow> fs_op list \<Rightarrow> js_error + dir" where
  "apply_ops d [] = Inr d"
| "apply_ops d (op # ops) = (case apply_op d op of Inl e \<Rightarrow> Inl e | Inr d' \<Rightarrow> apply_ops d' ops)"

record todo_summary =
  filename :: string
  frontmatter :: frontmatter
  title :: string
  slug :: string
  number :: string

record todo = todo_summary +
  content :: string

section \<open>Listing and ordering\<close>

text \<open>
  The loop of \<^verbatim>\<open>listTodos\<close> (lines 167 to 186). The filter is off when the argument is
  missing or empty; an array is never \<^verbatim>\<open>===\<close> to the filter string.
\<close>

definition load_todo :: "string \<Rightarrow> string \<Rightarrow> todo" where
  "load_todo fname txt =
     (let (fm, body) = parseFrontmatter txt; (num, st, pri, slg) = parseFilename fname
      in \<lparr>filename = fname, frontmatter = fm, title = extractTitle body, slug = slg,
          number = num, content = body\<rparr>)"

definition status_passes :: "string option \<Rightarrow> frontmatter \<Rightarrow> bool" where
  "status_passes statusFilter fm =
     (case statusFilter of
        None \<Rightarrow> True
      | Some s \<Rightarrow> s = [] \<or> map_of fm ''status'' = Some (Str s))"

fun read_todos :: "string option \<Rightarrow> dir \<Rightarrow> todo list" where
  "read_todos statusFilter [] = []"
| "read_todos statusFilter ((fname, txt) # d) =
     (if \<not> endsWith fname ''.md'' then read_todos statusFilter d
      else if \<not> status_passes statusFilter (fst (parseFrontmatter txt))
        then read_todos statusFilter d
      else load_todo fname txt # read_todos statusFilter d)"

text \<open>
  \<^verbatim>\<open>cycleOrder\<close> (lines 190 to 194). The missing and the empty string are falsy. An
  array is truthy and has no \<^verbatim>\<open>toLowerCase\<close>, so the call throws.
\<close>

definition cycleOrder :: "fmval option \<Rightarrow> js_error + int" where
  "cycleOrder cycle =
     (case cycle of
        None \<Rightarrow> Inr 3
      | Some (Arr vs) \<Rightarrow> Inl (TypeError ''cycle.toLowerCase is not a function'')
      | Some (Str s) \<Rightarrow>
          if s = [] then Inr 3
          else if includes_str (toLowerCase s) ''current'' then Inr 1
          else Inr 2)"

text \<open>
  \<^verbatim>\<open>priorityOrder[priority]\<close>: the key of an array is its elements joined by commas.
  \<open>None\<close> is a value that is no number (\<^verbatim>\<open>undefined\<close>, or an inherited property of the
  object literal), which makes the difference NaN.
\<close>

definition priorityOrder :: "fmval option \<Rightarrow> int option" where
  "priorityOrder priority =
     (let key = (case priority of None \<Rightarrow> ''undefined'' | Some (Str s) \<Rightarrow> s
                 | Some (Arr vs) \<Rightarrow> join '','' vs)
      in if key = ''p1'' then Some 1 else if key = ''p2'' then Some 2
         else if key = ''p3'' then Some 3 else None)"

text \<open>
  \<^verbatim>\<open>parseInt\<close> on the number of a file name, which is always a string of decimal digits
  (\<open>parseFilename_number_digits\<close> below). Numbers are exact integers here; the numbers of
  JavaScript are exact up to \<open>2^53\<close>, and the theorems that compare or print ids assume
  the ids are below that.
\<close>

definition parseInt :: "string \<Rightarrow> int" where
  "parseInt s = dec_value s"

definition max_safe :: int where
  "max_safe = 2 ^ 53 - 1"

datatype jsnum = NaN | Num int

text \<open>The comparator of \<^verbatim>\<open>todos.sort\<close> (lines 196 to 211).\<close>

definition compareTodos :: "todo \<Rightarrow> todo \<Rightarrow> js_error + jsnum" where
  "compareTodos a b =
     (case cycleOrder (map_of (frontmatter a) ''linear_cycle'') of
        Inl e \<Rightarrow> Inl e
      | Inr ca \<Rightarrow>
          (case cycleOrder (map_of (frontmatter b) ''linear_cycle'') of
             Inl e \<Rightarrow> Inl e
           | Inr cb \<Rightarrow>
               if ca - cb \<noteq> 0 then Inr (Num (ca - cb))
               else
                 (case (priorityOrder (map_of (frontmatter a) ''priority''),
                        priorityOrder (map_of (frontmatter b) ''priority'')) of
                    (Some pa, Some pb) \<Rightarrow>
                      if pa - pb \<noteq> 0 then Inr (Num (pa - pb))
                      else Inr (Num (parseInt (number a) - parseInt (number b)))
                  | _ \<Rightarrow> Inr NaN)))"

text \<open>
  \<^verbatim>\<open>Array.prototype.sort\<close> belongs to the runtime. The language requires it to be
  stable and to read a comparator result NaN as 0; which pairs it compares is its own
  choice. It is modelled as insertion from the right, which is a stable sort and compares
  every element of a list of two or more; an exception of the comparator ends the sort.
\<close>

definition sort_value :: "jsnum \<Rightarrow> int" where
  "sort_value v = (case v of NaN \<Rightarrow> 0 | Num i \<Rightarrow> i)"

fun insert_by :: "('a \<Rightarrow> 'a \<Rightarrow> js_error + jsnum) \<Rightarrow> 'a \<Rightarrow> 'a list \<Rightarrow> js_error + 'a list" where
  "insert_by cmp x [] = Inr [x]"
| "insert_by cmp x (y # ys) =
     (case cmp x y of
        Inl e \<Rightarrow> Inl e
      | Inr v \<Rightarrow>
          if sort_value v \<le> 0 then Inr (x # y # ys)
          else (case insert_by cmp x ys of Inl e \<Rightarrow> Inl e | Inr zs \<Rightarrow> Inr (y # zs)))"

fun sort_by :: "('a \<Rightarrow> 'a \<Rightarrow> js_error + jsnum) \<Rightarrow> 'a list \<Rightarrow> js_error + 'a list" where
  "sort_by cmp [] = Inr []"
| "sort_by cmp (x # xs) =
     (case sort_by cmp xs of Inl e \<Rightarrow> Inl e | Inr ys \<Rightarrow> insert_by cmp x ys)"

definition listTodos :: "dir \<Rightarrow> string option \<Rightarrow> js_error + todo list" where
  "listTodos d statusFilter = sort_by compareTodos (read_todos statusFilter d)"

text \<open>The sort key in the words of the specification.\<close>

text \<open>Some window of \<open>s\<close> is the word \<open>w\<close> when the case of the letters is ignored.\<close>

fun contains_ci :: "string \<Rightarrow> string \<Rightarrow> bool" where
  "contains_ci [] w = (w = [])"
| "contains_ci (c # cs) w =
     (map lower_char (take (length w) (c # cs)) = w \<or> contains_ci cs w)"

definition groupRank :: "todo \<Rightarrow> int" where
  "groupRank t =
     (case map_of (frontmatter t) ''linear_cycle'' of
        Some (Str s) \<Rightarrow> if s \<noteq> [] \<and> contains_ci s ''current'' then 1 else if s \<noteq> [] then 2 else 3
      | _ \<Rightarrow> 3)"

definition priorityRank :: "todo \<Rightarrow> int" where
  "priorityRank t =
     (let p = map_of (frontmatter t) ''priority'' in
      if p = Some (Str ''p1'') then 1 else if p = Some (Str ''p2'') then 2 else 3)"

definition sort_key_of :: "todo \<Rightarrow> int \<times> int \<times> int" where
  "sort_key_of t = (groupRank t, priorityRank t, dec_value (number t))"

text \<open>
  Files as the interface \<^verbatim>\<open>TodoFrontmatter\<close> types them: the priority is one of the three
  tiers and the cycle, when present, is a string. Ids are below \<open>2^53\<close>.
\<close>

definition typed_item :: "todo \<Rightarrow> bool" where
  "typed_item t =
     ((case map_of (frontmatter t) ''linear_cycle'' of Some (Arr vs) \<Rightarrow> False | _ \<Rightarrow> True)
      \<and> map_of (frontmatter t) ''priority'' \<in> {Some (Str ''p1''), Some (Str ''p2''), Some (Str ''p3'')}
      \<and> parseInt (number t) \<le> max_safe)"

section \<open>The next todo\<close>

text \<open>
  \<^verbatim>\<open>(todo.frontmatter.dependencies || []).filter((d) => d && d.trim() !== "")\<close>. A string
  that is not empty is truthy and has no \<^verbatim>\<open>filter\<close>, so the call throws.
\<close>

definition deps_of :: "frontmatter \<Rightarrow> js_error + string list" where
  "deps_of fm =
     (case map_of fm ''dependencies'' of
        None \<Rightarrow> Inr []
      | Some (Arr ds) \<Rightarrow> Inr (filter (\<lambda>d. d \<noteq> [] \<and> trim d \<noteq> []) ds)
      | Some (Str s) \<Rightarrow>
          if s = [] then Inr []
          else Inl (TypeError ''(todo.frontmatter.dependencies || []).filter is not a function''))"

text \<open>
  The ids of the completed todos: \<^verbatim>\<open>issue_id\<close> of each, the falsy ones dropped. An array
  stays in the \<^verbatim>\<open>Set\<close> but \<^verbatim>\<open>has\<close> never finds it equal to a string, so only the
  strings count.
\<close>

definition completedIds :: "todo list \<Rightarrow> string list" where
  "completedIds ts =
     concat (map (\<lambda>t. case map_of (frontmatter t) ''issue_id'' of
                          Some (Str s) \<Rightarrow> if s = [] then [] else [s]
                        | _ \<Rightarrow> []) ts)"

text \<open>The loop of \<^verbatim>\<open>getNextTodo\<close> (lines 223 to 233).\<close>

fun first_ready :: "string list \<Rightarrow> todo list \<Rightarrow> js_error + todo option" where
  "first_ready ids [] = Inr None"
| "first_ready ids (t # ts) =
     (case deps_of (frontmatter t) of
        Inl e \<Rightarrow> Inl e
      | Inr deps \<Rightarrow>
          if filter (\<lambda>dep. dep \<notin> set ids) deps = [] then Inr (Some t)
          else first_ready ids ts)"

definition getNextTodo :: "dir \<Rightarrow> js_error + todo option" where
  "getNextTodo d =
     (case listTodos d (Some ''pending'') of
        Inl e \<Rightarrow> Inl e
      | Inr todos \<Rightarrow>
          (case listTodos d (Some ''completed'') of
             Inl e \<Rightarrow> Inl e
           | Inr done \<Rightarrow> first_ready (completedIds done) todos))"

text \<open>The two lists \<^const>\<open>getNextTodo\<close> works on: the ids of the completed todos and the
  pending todos in the order of the sort key.\<close>

definition completed_ids :: "dir \<Rightarrow> string set" where
  "completed_ids d = set (completedIds (read_todos (Some ''completed'') d))"

definition pending_queue :: "dir \<Rightarrow> todo list" where
  "pending_queue d = sort_key sort_key_of (read_todos (Some ''pending'') d)"

text \<open>Eligibility in the words of the specification.\<close>

definition nonblank_deps :: "todo \<Rightarrow> string list" where
  "nonblank_deps t =
     (case map_of (frontmatter t) ''dependencies'' of
        Some (Arr ds) \<Rightarrow> filter (\<lambda>d. trim d \<noteq> []) ds
      | _ \<Rightarrow> [])"

definition eligible :: "string set \<Rightarrow> todo \<Rightarrow> bool" where
  "eligible completed t = (set (nonblank_deps t) \<subseteq> completed)"

text \<open>Dependencies as the interface types them: missing or an array.\<close>

definition typed_deps :: "todo \<Rightarrow> bool" where
  "typed_deps t =
     (case map_of (frontmatter t) ''dependencies'' of Some (Str s) \<Rightarrow> s = [] | _ \<Rightarrow> True)"

section \<open>Blocking a todo and reading it back\<close>

text \<open>
  \<^verbatim>\<open>blockTodo\<close> (lines 267 to 292). The time stamp \<^verbatim>\<open>new Date().toISOString()\<close> is the
  parameter \<open>now\<close>. The result is the file-system calls in the order they are made and
  the new file name that is printed.
\<close>

definition blockTodo :: "string \<Rightarrow> dir \<Rightarrow> string \<Rightarrow> string \<Rightarrow> js_error + fs_op list \<times> string" where
  "blockTodo now d fname reason =
     (case readFile d fname of
        Inl e \<Rightarrow> Inl e
      | Inr txt \<Rightarrow>
          let (fm, body) = parseFrontmatter txt;
              (num, st, pri, slg) = parseFilename fname;
              fm1 = assign fm ''status'' (Str ''blocked'');
              fm2 = assign fm1 ''blocked_at'' (Str now);
              fm3 = assign fm2 ''blocked_reason'' (Str reason);
              newContent = render fm3 body;
              newFilename = buildFilename num ''blocked'' pri slg
          in Inr (WriteOp fname newContent
                  # (if fname \<noteq> newFilename then [RenameOp fname newFilename] else []),
                  newFilename))"

text \<open>The directory after the calls of \<^const>\<open>blockTodo\<close>.\<close>

definition after_block :: "string \<Rightarrow> dir \<Rightarrow> string \<Rightarrow> string \<Rightarrow> js_error + dir" where
  "after_block now d fname reason =
     (case blockTodo now d fname reason of
        Inl e \<Rightarrow> Inl e
      | Inr (ops, newFilename) \<Rightarrow> apply_ops d ops)"

text \<open>The command \<^verbatim>\<open>get\<close> (lines 523 to 548).\<close>

definition get_cmd :: "dir \<Rightarrow> string \<Rightarrow> js_error + todo_summary" where
  "get_cmd d fname =
     (case readFile d fname of
        Inl e \<Rightarrow> Inl e
      | Inr txt \<Rightarrow>
          let (fm, body) = parseFrontmatter txt; (num, st, pri, slg) = parseFilename fname
          in Inr \<lparr>filename = fname, frontmatter = fm, title = extractTitle body, slug = slg,
                  number = num\<rparr>)"

text \<open>
  Reasons that the hand-written serialiser and parser carry through unchanged: one line,
  and either with a space (then it is written in quotes) or a bare word that has no white
  space at its ends and does not start with a bracket or a quote.
\<close>

definition plain_reason :: "string \<Rightarrow> bool" where
  "plain_reason r =
     (nl \<notin> set r \<and>
      (CHR '' '' \<in> set r \<or>
       (r \<noteq> [] \<and> trim r = r \<and> \<not> startsWith r ''['' \<and> \<not> startsWith r [dquote])))"

text \<open>
  What the parser gives and the serialiser needs, used to follow a front matter through
  writing and reading: the keys are distinct, have no colon and no white space at their
  ends, and neither keys nor values hold a line feed.
\<close>

definition key_ok :: "string \<Rightarrow> bool" where
  "key_ok k = (CHR '':'' \<notin> set k \<and> nl \<notin> set k \<and> trim k = k)"

fun val_ok :: "fmval \<Rightarrow> bool" where
  "val_ok (Str s) = (nl \<notin> set s)"
| "val_ok (Arr vs) = (\<forall>v \<in> set vs. nl \<notin> set v)"

definition fm_ok :: "frontmatter \<Rightarrow> bool" where
  "fm_ok fm = (distinct (map fst fm) \<and> (\<forall>(k, v) \<in> set fm. key_ok k \<and> val_ok v))"

text \<open>What \<^const>\<open>serialize_entry\<close> writes after the key, the colon and the space.\<close>

fun payload :: "fmval \<Rightarrow> string" where
  "payload (Arr vs) = ''['' @ join '', '' (map (\<lambda>v. [dquote] @ v @ [dquote]) vs) @ '']''"
| "payload (Str v) = (if CHR '' '' \<in> set v then [dquote] @ v @ [dquote] else v)"

text \<open>
  The command \<^verbatim>\<open>block\<close> followed by the command \<^verbatim>\<open>get\<close> on the file name that
  \<^verbatim>\<open>block\<close> printed.
\<close>

definition block_then_get :: "string \<Rightarrow> dir \<Rightarrow> string \<Rightarrow> string \<Rightarrow> js_error + todo_summary" where
  "block_then_get now d fname reason =
     (case blockTodo now d fname reason of
        Inl e \<Rightarrow> Inl e
      | Inr (ops, newFilename) \<Rightarrow>
          (case apply_ops d ops of
             Inl e \<Rightarrow> Inl e
           | Inr d' \<Rightarrow> get_cmd d' newFilename))"

section \<open>Creating a todo\<close>

text \<open>\<^verbatim>\<open>String(n)\<close> for an integer that is not negative.\<close>

function show_int :: "int \<Rightarrow> string" where
  "show_int n =
     (if n < 10 then [char_of (48 + n)] else show_int (n div 10) @ [char_of (48 + n mod 10)])"
  by pat_completeness auto
termination
  by (relation "measure nat") auto

declare show_int.simps [simp del]

definition padStart3 :: "string \<Rightarrow> string" where
  "padStart3 s = replicate (3 - length s) CHR ''0'' @ s"

text \<open>The loop of \<^verbatim>\<open>getNextNumber\<close> (lines 299 to 306) over the names \<^verbatim>\<open>readdir\<close> gives.\<close>

fun max_number :: "int \<Rightarrow> string list \<Rightarrow> int" where
  "max_number maxNumber [] = maxNumber"
| "max_number maxNumber (fname # fs) =
     (if \<not> endsWith fname ''.md'' then max_number maxNumber fs
      else
        let num = parseInt (fst (parseFilename fname))
        in max_number (if num > maxNumber then num else maxNumber) fs)"

definition getNextNumber :: "dir \<Rightarrow> string" where
  "getNextNumber d = padStart3 (show_int (max_number 0 (map fst d) + 1))"

text \<open>
  The slug (lines 316 to 320): lower case, then \<^verbatim>\<open>replace(/[^a-z0-9]+/g, "-")\<close>, which
  puts one hyphen for each longest run of characters outside \<^verbatim>\<open>[a-z0-9]\<close>, then
  \<^verbatim>\<open>replace(/^-|-$/g, "")\<close>, which removes one hyphen at the start and one at the end,
  then the first 50 characters.
\<close>

definition is_slug_char :: "char \<Rightarrow> bool" where
  "is_slug_char c =
     (let n = of_char c :: int in (97 \<le> n \<and> n \<le> 122) \<or> (48 \<le> n \<and> n \<le> 57))"

function replace_runs :: "string \<Rightarrow> string" where
  "replace_runs [] = []"
| "replace_runs (c # cs) =
     (if is_slug_char c then c # replace_runs cs
      else CHR ''-'' # replace_runs (dropWhile (\<lambda>x. \<not> is_slug_char x) cs))"
  by pat_completeness auto
termination
  by (relation "measure length") (auto simp: less_Suc_eq_le length_dropWhile_le)

definition strip_hyphens :: "string \<Rightarrow> string" where
  "strip_hyphens s =
     (let s1 = (case s of [] \<Rightarrow> [] | c # cs \<Rightarrow> if c = CHR ''-'' then cs else s)
      in if s1 \<noteq> [] \<and> last s1 = CHR ''-'' then butlast s1 else s1)"

definition make_slug :: "string \<Rightarrow> string" where
  "make_slug ttl = take 50 (strip_hyphens (replace_runs (toLowerCase ttl)))"

record create_options =
  opt_priority :: string
  opt_title :: string
  opt_description :: "string option"
  opt_tags :: "string list option"
  opt_parentIssue :: "string option"
  opt_linearIssue :: "string option"
  opt_linearUrl :: "string option"
  opt_dependencies :: "string list option"

text \<open>A string option is truthy when it is there and not empty.\<close>

definition truthy :: "string option \<Rightarrow> bool" where
  "truthy x = (case x of None \<Rightarrow> False | Some s \<Rightarrow> s \<noteq> [])"

definition create_frontmatter :: "string \<Rightarrow> create_options \<Rightarrow> frontmatter" where
  "create_frontmatter num opts =
     (let fm0 = [(''status'', Str ''pending''), (''priority'', Str (opt_priority opts)),
                 (''issue_id'', Str num),
                 (''tags'', Arr (case opt_tags opts of None \<Rightarrow> [] | Some ts \<Rightarrow> ts))];
          fm1 = (if truthy (opt_linearIssue opts)
                 then assign fm0 ''linear_issue'' (Str (the (opt_linearIssue opts))) else fm0);
          fm2 = (if truthy (opt_linearUrl opts)
                 then assign fm1 ''linear_url'' (Str (the (opt_linearUrl opts))) else fm1)
      in case opt_dependencies opts of
           None \<Rightarrow> fm2
         | Some ds \<Rightarrow> if ds \<noteq> [] then assign fm2 ''dependencies'' (Arr ds) else fm2)"

definition create_body :: "create_options \<Rightarrow> string" where
  "create_body opts =
     [nl] @ ''# '' @ opt_title opts @ [nl, nl] @ ''## Problem Statement'' @ [nl, nl]
     @ (if truthy (opt_description opts) then the (opt_description opts) else ''[To be defined]'')
     @ [nl, nl]
     @ (if truthy (opt_parentIssue opts)
        then ''## Origin'' @ [nl, nl] @ ''Created as follow-up from todo ''
             @ the (opt_parentIssue opts) @ '' during code review.'' @ [nl]
        else [])
     @ [nl] @ ''## Acceptance Criteria'' @ [nl, nl] @ ''- [ ] [Define acceptance criteria]''
     @ [nl, nl] @ ''## Notes'' @ [nl, nl] @ ''[Add implementation notes here]'' @ [nl]"

text \<open>
  \<^verbatim>\<open>createTodo\<close> (lines 312 to 373) has no branch that refuses: it computes the number,
  writes the file and prints the name and the number. The result is the file-system
  calls, the file name and the number.
\<close>

definition createTodo :: "dir \<Rightarrow> create_options \<Rightarrow> fs_op list \<times> string \<times> string" where
  "createTodo d opts =
     (let num = getNextNumber d;
          slg = make_slug (opt_title opts);
          fname = buildFilename num ''pending'' (opt_priority opts) slg;
          fm = create_frontmatter num opts
      in ([WriteOp fname (render fm (create_body opts))], fname, num))"

text \<open>
  \<^verbatim>\<open>parseCreateArgs\<close> (lines 451 to 509). A flag takes the next argument, which is
  \<^verbatim>\<open>undefined\<close> after the last one; \<^verbatim>\<open>split\<close> on \<^verbatim>\<open>undefined\<close> throws. Without a priority
  or a title that is not empty the process exits with code 1.
\<close>

record partial_options =
  p_priority :: "string option"
  p_title :: "string option"
  p_description :: "string option"
  p_tags :: "string list option"
  p_parentIssue :: "string option"
  p_linearIssue :: "string option"
  p_linearUrl :: "string option"
  p_dependencies :: "string list option"

datatype exit = Exit nat | Thrown js_error

fun scan_args :: "partial_options \<Rightarrow> string list \<Rightarrow> js_error + partial_options" where
  "scan_args opts [] = Inr opts"
| "scan_args opts (arg # rest) =
     (let nextArg = (case rest of [] \<Rightarrow> None | x # xs \<Rightarrow> Some x) in
      if arg = ''--priority'' then
        scan_args (if nextArg \<in> {Some ''p1'', Some ''p2'', Some ''p3''}
                   then opts\<lparr>p_priority := nextArg\<rparr> else opts) (tl rest)
      else if arg = ''--title'' then scan_args (opts\<lparr>p_title := nextArg\<rparr>) (tl rest)
      else if arg = ''--description'' then scan_args (opts\<lparr>p_description := nextArg\<rparr>) (tl rest)
      else if arg = ''--tags'' then
        (case nextArg of
           None \<Rightarrow> Inl (TypeError ''undefined is not an object (evaluating nextArg.split)'')
         | Some x \<Rightarrow>
             scan_args (opts\<lparr>p_tags := Some (map trim (split_char CHR '','' x))\<rparr>) (tl rest))
      else if arg = ''--parent-issue'' then scan_args (opts\<lparr>p_parentIssue := nextArg\<rparr>) (tl rest)
      else if arg = ''--linear-issue'' then scan_args (opts\<lparr>p_linearIssue := nextArg\<rparr>) (tl rest)
      else if arg = ''--linear-url'' then scan_args (opts\<lparr>p_linearUrl := nextArg\<rparr>) (tl rest)
      else if arg = ''--dependencies'' then
        (case nextArg of
           None \<Rightarrow> Inl (TypeError ''undefined is not an object (evaluating nextArg.split)'')
         | Some x \<Rightarrow>
             scan_args (opts\<lparr>p_dependencies := Some (map trim (split_char CHR '','' x))\<rparr>)
               (tl rest))
      else scan_args opts rest)"

definition no_options :: partial_options where
  "no_options = \<lparr>p_priority = None, p_title = None, p_description = None, p_tags = None,
     p_parentIssue = None, p_linearIssue = None, p_linearUrl = None, p_dependencies = None\<rparr>"

definition parseCreateArgs :: "string list \<Rightarrow> exit + create_options" where
  "parseCreateArgs args =
     (case scan_args no_options args of
        Inl e \<Rightarrow> Inl (Thrown e)
      | Inr opts \<Rightarrow>
          if \<not> truthy (p_priority opts) \<or> \<not> truthy (p_title opts) then Inl (Exit 1)
          else Inr \<lparr>opt_priority = the (p_priority opts), opt_title = the (p_title opts),
                 opt_description = p_description opts, opt_tags = p_tags opts,
                 opt_parentIssue = p_parentIssue opts, opt_linearIssue = p_linearIssue opts,
                 opt_linearUrl = p_linearUrl opts, opt_dependencies = p_dependencies opts\<rparr>)"

text \<open>The command \<^verbatim>\<open>create\<close> (lines 582 to 586): the arguments, then the file.\<close>

definition create_cmd :: "dir \<Rightarrow> string list \<Rightarrow> exit + fs_op list \<times> string \<times> string" where
  "create_cmd d args =
     (case parseCreateArgs args of Inl e \<Rightarrow> Inl e | Inr opts \<Rightarrow> Inr (createTodo d opts))"

text \<open>
  The ids in the words of the specification. The id of a file is the number its name
  starts with, whatever follows (0 when the name starts with no digit); the next id is
  the maximum of the ids of the \<^verbatim>\<open>.md\<close> files, or of nothing, plus one.
\<close>

definition file_id :: "string \<Rightarrow> int" where
  "file_id fname = dec_value (takeWhile is_digit fname)"

definition existing_ids :: "dir \<Rightarrow> int set" where
  "existing_ids d = file_id ` {fname \<in> set (map fst d). endsWith fname ''.md''}"

definition next_id :: "dir \<Rightarrow> int" where
  "next_id d = Max (insert 0 (existing_ids d)) + 1"

text \<open>
  Directories in which every \<^verbatim>\<open>.md\<close> name that starts with a digit has the whole shape
  of an item name, \<^verbatim>\<open>{id}-{state}-{priority}-{slug}.md\<close> with a slug that is not empty.
\<close>

definition well_named :: "dir \<Rightarrow> bool" where
  "well_named d =
     list_all (\<lambda>(fname, t). endsWith fname ''.md'' \<longrightarrow>
                 match_filename fname \<noteq> None \<or> takeWhile is_digit fname = []) d"

text \<open>The dependencies of a created file when the directory is read after the creation.\<close>

definition created_dependencies :: "dir \<Rightarrow> create_options \<Rightarrow> fmval option" where
  "created_dependencies d opts =
     (case createTodo d opts of
        (ops, fname, num) \<Rightarrow>
          (case apply_ops d ops of
             Inl e \<Rightarrow> None
           | Inr d' \<Rightarrow>
               (case get_cmd d' fname of
                  Inl e \<Rightarrow> None
                | Inr t \<Rightarrow> map_of (frontmatter t) ''dependencies'')))"

section \<open>Worktrees\<close>

text \<open>
  \<^verbatim>\<open>worktree-utils.ts\<close> acts on the world only through shell commands (\<^verbatim>\<open>execAsync\<close>)
  and \<^verbatim>\<open>rm\<close>. The world is a parameter: a shell takes the command, the working directory
  and the world, and gives the standard output or the message of the error, and the world
  after it. \<open>root\<close> is \<^verbatim>\<open>REPO_ROOT\<close>, which ends with a slash.
\<close>

type_synonym 'w shell = "string \<Rightarrow> string \<Rightarrow> 'w \<Rightarrow> (string + string) \<times> 'w"

type_synonym 'w remover = "string \<Rightarrow> 'w \<Rightarrow> (string + unit) \<times> 'w"

definition run :: "'w shell \<Rightarrow> string \<Rightarrow> string \<Rightarrow> 'w \<Rightarrow> (string + string) \<times> 'w" where
  "run sh command cwd w =
     (case sh command cwd w of
        (Inl msg, w') \<Rightarrow> (Inl msg, w')
      | (Inr out, w') \<Rightarrow> (Inr (trim out), w'))"

definition WORKTREES_DIR :: "string \<Rightarrow> string" where
  "WORKTREES_DIR root = root @ ''.worktrees''"

text \<open>\<^verbatim>\<open>join(WORKTREES_DIR, name)\<close> for a plain name (no slash, not a dot name).\<close>

definition worktree_path :: "string \<Rightarrow> string \<Rightarrow> string" where
  "worktree_path root name = WORKTREES_DIR root @ ''/'' @ name"

record worktree_info =
  wt_name :: string
  wt_path :: string
  wt_branch :: string
  wt_commit :: string
  wt_isRalph :: bool

text \<open>\<^verbatim>\<open>s.split("\n\n")\<close>: the pieces between the occurrences, read from the left.\<close>

fun split2 :: "char \<Rightarrow> char \<Rightarrow> string \<Rightarrow> string \<Rightarrow> string list" where
  "split2 a b acc (x # y # r) =
     (if x = a \<and> y = b then rev acc # split2 a b [] r else split2 a b (x # acc) (y # r))"
| "split2 a b acc r = [rev acc @ r]"

text \<open>\<^verbatim>\<open>s.replace(pat, "")\<close> with a string pattern: the first occurrence goes.\<close>

definition remove_first :: "string \<Rightarrow> string \<Rightarrow> string" where
  "remove_first pat s = (case split_first pat s of None \<Rightarrow> s | Some (a, b) \<Rightarrow> a @ b)"

text \<open>One entry of the porcelain output (lines 63 to 80).\<close>

definition parse_entry :: "bool \<Rightarrow> string \<Rightarrow> worktree_info list" where
  "parse_entry all entry =
     (let lines = split_char nl entry in
      case find (\<lambda>l. startsWith l ''worktree '') lines of
        None \<Rightarrow> []
      | Some pathLine \<Rightarrow>
          let p = remove_first ''worktree '' pathLine;
              n = last (split_char CHR ''/'' p);
              c = (case find (\<lambda>l. startsWith l ''HEAD '') lines of
                     None \<Rightarrow> [] | Some headLine \<Rightarrow> remove_first ''HEAD '' headLine);
              b = (case find (\<lambda>l. startsWith l ''branch '') lines of
                     None \<Rightarrow> []
                   | Some branchLine \<Rightarrow> remove_first ''branch refs/heads/'' branchLine);
              r = startsWith n ''ralph-''
          in if all \<or> r
             then [\<lparr>wt_name = n, wt_path = p, wt_branch = b, wt_commit = c, wt_isRalph = r\<rparr>]
             else [])"

definition parse_worktrees :: "bool \<Rightarrow> string \<Rightarrow> worktree_info list" where
  "parse_worktrees all output =
     concat (map (parse_entry all) (filter (\<lambda>e. e \<noteq> []) (split2 nl nl [] output)))"

definition listWorktrees ::
  "'w shell \<Rightarrow> string \<Rightarrow> bool \<Rightarrow> 'w \<Rightarrow> (string + worktree_info list) \<times> 'w" where
  "listWorktrees sh root all w =
     (case run sh ''git worktree list --porcelain'' root w of
        (Inl msg, w') \<Rightarrow> (Inl msg, w')
      | (Inr output, w') \<Rightarrow> (Inr (parse_worktrees all output), w'))"

datatype result_data =
    Created string string string bool
  | Deleted string bool bool
  | Cleaned "string list" "string list" "string list"

record command_result =
  success :: bool
  data :: "result_data option"
  error :: "string option"

definition failure :: "string \<Rightarrow> command_result" where
  "failure msg = \<lparr>success = False, data = None, error = Some msg\<rparr>"

definition succeeded :: "result_data \<Rightarrow> command_result" where
  "succeeded x = \<lparr>success = True, data = Some x, error = None\<rparr>"

text \<open>
  \<^verbatim>\<open>createWorktree\<close> (lines 88 to 129). Every exception inside the \<^verbatim>\<open>try\<close> becomes the
  result \<^verbatim>\<open>Failed to create worktree\<close>.
\<close>

definition createWorktree ::
  "'w shell \<Rightarrow> string \<Rightarrow> string \<Rightarrow> string \<Rightarrow> 'w \<Rightarrow> command_result \<times> 'w" where
  "createWorktree sh root name branch w =
     (let worktreePath = worktree_path root name in
      case listWorktrees sh root True w of
        (Inl msg, w1) \<Rightarrow> (failure (''Failed to create worktree: '' @ msg), w1)
      | (Inr existing, w1) \<Rightarrow>
          if \<exists>x \<in> set existing. wt_name x = name
          then (failure (''Worktree '' @ name @ '' already exists''), w1)
          else
            (case run sh ''git fetch origin main:main || true'' root w1 of
               (Inl msg, w2) \<Rightarrow> (failure (''Failed to create worktree: '' @ msg), w2)
             | (Inr out2, w2) \<Rightarrow>
                 (case run sh (''git worktree add '' @ [dquote] @ worktreePath @ [dquote]
                               @ '' -b '' @ [dquote] @ branch @ [dquote] @ '' main'') root w2 of
                    (Inl msg, w3) \<Rightarrow> (failure (''Failed to create worktree: '' @ msg), w3)
                  | (Inr out3, w3) \<Rightarrow>
                      (case run sh ''bun install'' worktreePath w3 of
                         (Inl msg, w4) \<Rightarrow> (failure (''Failed to create worktree: '' @ msg), w4)
                       | (Inr out4, w4) \<Rightarrow>
                           (succeeded (Created name worktreePath branch True), w4)))))"

text \<open>
  \<^verbatim>\<open>deleteWorktree\<close> (lines 134 to 182). An exception of the first block leads to the
  manual cleanup; the exception of the branch deletion is ignored.
\<close>

definition manual_cleanup ::
  "'w shell \<Rightarrow> 'w remover \<Rightarrow> string \<Rightarrow> string \<Rightarrow> string \<Rightarrow> 'w \<Rightarrow> command_result \<times> 'w" where
  "manual_cleanup sh rm root name msg w =
     (case rm (worktree_path root name) w of
        (Inl msg', w1) \<Rightarrow> (failure (''Failed to delete worktree: '' @ msg), w1)
      | (Inr u, w1) \<Rightarrow>
          (case run sh ''git worktree prune'' root w1 of
             (Inl msg', w2) \<Rightarrow> (failure (''Failed to delete worktree: '' @ msg), w2)
           | (Inr out, w2) \<Rightarrow> (succeeded (Deleted name True True), w2)))"

definition deleteWorktree ::
  "'w shell \<Rightarrow> 'w remover \<Rightarrow> string \<Rightarrow> string \<Rightarrow> 'w \<Rightarrow> command_result \<times> 'w" where
  "deleteWorktree sh rm root name w =
     (case listWorktrees sh root True w of
        (Inl msg, w1) \<Rightarrow> manual_cleanup sh rm root name msg w1
      | (Inr existing, w1) \<Rightarrow>
          (case find (\<lambda>x. wt_name x = name) existing of
             None \<Rightarrow> (failure (''Worktree '' @ name @ '' does not exist''), w1)
           | Some worktree \<Rightarrow>
               (case run sh (''git worktree remove '' @ [dquote] @ worktree_path root name
                             @ [dquote] @ '' --force'') root w1 of
                  (Inl msg, w2) \<Rightarrow> manual_cleanup sh rm root name msg w2
                | (Inr out2, w2) \<Rightarrow>
                    (case run sh ''git worktree prune'' root w2 of
                       (Inl msg, w3) \<Rightarrow> manual_cleanup sh rm root name msg w3
                     | (Inr out3, w3) \<Rightarrow>
                         (case run sh (''git branch -D '' @ [dquote] @ wt_branch worktree
                                       @ [dquote] @ '' 2>/dev/null || true'') root w3 of
                            (r, w4) \<Rightarrow> (succeeded (Deleted name True False), w4))))))"

text \<open>
  The loop of \<^verbatim>\<open>cleanupWorktrees\<close> (lines 222 to 242) with its three lists. \<^verbatim>\<open>kept\<close> is
  declared and never written. \<^verbatim>\<open>deleteWorktree\<close> catches everything, so the \<^verbatim>\<open>catch\<close>
  of the loop is never entered.
\<close>

fun cleanup_loop ::
  "'w shell \<Rightarrow> 'w remover \<Rightarrow> string \<Rightarrow> worktree_info list \<Rightarrow> string list \<Rightarrow> string list \<Rightarrow> 'w
     \<Rightarrow> (string list \<times> string list) \<times> 'w" where
  "cleanup_loop sh rm root [] cleaned errors w = ((cleaned, errors), w)"
| "cleanup_loop sh rm root (x # xs) cleaned errors w =
     (if \<not> wt_isRalph x then cleanup_loop sh rm root xs cleaned errors w
      else
        (case deleteWorktree sh rm root (wt_name x) w of
           (result, w') \<Rightarrow>
             if success result then cleanup_loop sh rm root xs (cleaned @ [wt_name x]) errors w'
             else cleanup_loop sh rm root xs cleaned
                    (errors @ [wt_name x @ '': '' @ (case error result of None \<Rightarrow> ''undefined''
                                                       | Some msg \<Rightarrow> msg)]) w'))"

text \<open>
  \<^verbatim>\<open>cleanupWorktrees\<close> (lines 216 to 248). The listing is outside every \<^verbatim>\<open>try\<close>: its
  exception is the exception of the function (\<open>Inl\<close>).
\<close>

definition cleanupWorktrees ::
  "'w shell \<Rightarrow> 'w remover \<Rightarrow> string \<Rightarrow> 'w \<Rightarrow> (string + command_result) \<times> 'w" where
  "cleanupWorktrees sh rm root w =
     (case listWorktrees sh root False w of
        (Inl msg, w1) \<Rightarrow> (Inl msg, w1)
      | (Inr worktrees, w1) \<Rightarrow>
          (case cleanup_loop sh rm root worktrees [] [] w1 of
             ((cleaned, errors), w2) \<Rightarrow>
               (Inr \<lparr>success = (length errors = 0),
                     data = Some (Cleaned cleaned [] errors), error = None\<rparr>, w2)))"

text \<open>
  A shell that records what it is asked: the world is the list of the commands so far.
  Its answers are those of a repository whose porcelain listing is \<open>listing\<close> and in
  which the branch \<open>taken\<close> exists, so that adding a worktree with that new branch fails
  as git makes it fail.
\<close>

definition recording_shell :: "string \<Rightarrow> string \<Rightarrow> (string list) shell" where
  "recording_shell listing taken command cwd w =
     (if command = ''git worktree list --porcelain'' then (Inr listing, w @ [command])
      else if startsWith command ''git worktree add ''
              \<and> includes_str command ('' -b '' @ [dquote] @ taken @ [dquote] @ '' '')
        then (Inl (''Command failed: '' @ command @ [nl] @ ''fatal: a branch named ''
                   @ [squote] @ taken @ [squote] @ '' already exists''), w @ [command])
      else (Inr [], w @ [command]))"

text \<open>
  The same in the words of the specification: the three commands of a creation, run in
  order up to the first that fails, and the two lists a cleanup reports.
\<close>

fun run_all :: "'w shell \<Rightarrow> (string \<times> string) list \<Rightarrow> 'w \<Rightarrow> (string + unit) \<times> 'w" where
  "run_all sh [] w = (Inr (), w)"
| "run_all sh ((command, cwd) # cs) w =
     (case run sh command cwd w of
        (Inl msg, w') \<Rightarrow> (Inl msg, w')
      | (Inr out, w') \<Rightarrow> run_all sh cs w')"

definition create_commands :: "string \<Rightarrow> string \<Rightarrow> string \<Rightarrow> (string \<times> string) list" where
  "create_commands root name branch =
     [(''git fetch origin main:main || true'', root),
      (''git worktree add '' @ [dquote] @ root @ ''.worktrees/'' @ name @ [dquote]
         @ '' -b '' @ [dquote] @ branch @ [dquote] @ '' main'', root),
      (''bun install'', root @ ''.worktrees/'' @ name)]"

definition cleaned_of :: "(string \<times> command_result) list \<Rightarrow> string list" where
  "cleaned_of ds = map fst (filter (\<lambda>(n, r). success r) ds)"

definition errors_of :: "(string \<times> command_result) list \<Rightarrow> string list" where
  "errors_of ds =
     map (\<lambda>(n, r). n @ '': '' @ (case error r of None \<Rightarrow> ''undefined'' | Some msg \<Rightarrow> msg))
       (filter (\<lambda>(n, r). \<not> success r) ds)"

text \<open>
  A cleanup in the words of the specification. The names it works on are the last path
  components of the listed worktrees that start with \<^verbatim>\<open>ralph-\<close>. The deletion of a name
  lists the worktrees again; a name that is no longer listed is an error and nothing
  is run for it. Otherwise git removes the directory of that name under the managed
  root, whatever path the listing gave, and prunes; then the branch the listing gave
  is deleted, with any outcome. When the listing or one of the two commands fails, the
  directory of that name under the managed root is removed by hand and git prunes; that
  counts as a deletion, and only a failure there is an error, reported with the message
  of the first failure.
\<close>

definition ralph_names :: "string \<Rightarrow> string list" where
  "ralph_names output =
     filter (\<lambda>n. startsWith n ''ralph-'') (map wt_name (parse_worktrees True output))"

definition managed_path :: "string \<Rightarrow> string \<Rightarrow> string" where
  "managed_path root name = root @ ''.worktrees/'' @ name"

definition remove_commands :: "string \<Rightarrow> string \<Rightarrow> (string \<times> string) list" where
  "remove_commands root name =
     [(''git worktree remove '' @ [dquote] @ managed_path root name @ [dquote] @ '' --force'', root),
      (''git worktree prune'', root)]"

definition branch_command :: "string \<Rightarrow> string" where
  "branch_command branch = ''git branch -D '' @ [dquote] @ branch @ [dquote] @ '' 2>/dev/null || true''"

definition remove_by_hand ::
  "'w shell \<Rightarrow> 'w remover \<Rightarrow> string \<Rightarrow> string \<Rightarrow> string \<Rightarrow> 'w \<Rightarrow> command_result \<times> 'w" where
  "remove_by_hand sh rm root name msg w =
     (case rm (managed_path root name) w of
        (Inl m, w1) \<Rightarrow> (failure (''Failed to delete worktree: '' @ msg), w1)
      | (Inr u, w1) \<Rightarrow>
          (case run_all sh [(''git worktree prune'', root)] w1 of
             (Inl m, w2) \<Rightarrow> (failure (''Failed to delete worktree: '' @ msg), w2)
           | (Inr u', w2) \<Rightarrow> (succeeded (Deleted name True True), w2)))"

definition delete_by_name ::
  "'w shell \<Rightarrow> 'w remover \<Rightarrow> string \<Rightarrow> string \<Rightarrow> 'w \<Rightarrow> command_result \<times> 'w" where
  "delete_by_name sh rm root name w =
     (case run sh ''git worktree list --porcelain'' root w of
        (Inl msg, w1) \<Rightarrow> remove_by_hand sh rm root name msg w1
      | (Inr output, w1) \<Rightarrow>
          (case filter (\<lambda>x. wt_name x = name) (parse_worktrees True output) of
             [] \<Rightarrow> (failure (''Worktree '' @ name @ '' does not exist''), w1)
           | x # xs \<Rightarrow>
               (case run_all sh (remove_commands root name) w1 of
                  (Inl msg, w2) \<Rightarrow> remove_by_hand sh rm root name msg w2
                | (Inr u, w2) \<Rightarrow>
                    (succeeded (Deleted name True False),
                     snd (sh (branch_command (wt_branch x)) root w2)))))"

text \<open>The deletions one after the other, each in the world the one before left.\<close>

fun delete_each ::
  "'w shell \<Rightarrow> 'w remover \<Rightarrow> string \<Rightarrow> string list \<Rightarrow> 'w
     \<Rightarrow> (string \<times> command_result) list \<times> 'w" where
  "delete_each sh rm root [] w = ([], w)"
| "delete_each sh rm root (n # ns) w =
     (case delete_by_name sh rm root n w of
        (r, w1) \<Rightarrow>
          (case delete_each sh rm root ns w1 of
             (rs, w2) \<Rightarrow> ((n, r) # rs, w2)))"

text \<open>
  A shell that records what it is asked and answers as git does in a repository whose
  porcelain listing is \<open>listing\<close>: \<^verbatim>\<open>git worktree remove\<close> fails for a path that is not
  the path of a listed worktree.
\<close>

definition quoted_arg :: "string \<Rightarrow> string" where
  "quoted_arg command =
     takeWhile (\<lambda>c. c \<noteq> dquote) (drop 1 (dropWhile (\<lambda>c. c \<noteq> dquote) command))"

definition git_shell :: "string \<Rightarrow> (string list) shell" where
  "git_shell listing command cwd w =
     (if command = ''git worktree list --porcelain'' then (Inr listing, w @ [command])
      else if startsWith command ''git worktree remove ''
              \<and> \<not> includes_str ([nl] @ listing @ [nl])
                    ([nl] @ ''worktree '' @ quoted_arg command @ [nl])
        then (Inl (''Command failed: '' @ command @ [nl] @ ''fatal: '' @ [squote]
                   @ quoted_arg command @ [squote] @ '' is not a working tree''),
              w @ [command])
      else (Inr [], w @ [command]))"

section \<open>Example directories\<close>

text \<open>Three pending todos: no cycle, the current cycle, another cycle.\<close>

definition dir_a :: dir where
  "dir_a =
     [(''003-pending-p1-c.md'', ''---\<newline>status: pending\<newline>priority: p1\<newline>---\<newline># C''),
      (''002-pending-p2-b.md'',
       ''---\<newline>status: pending\<newline>priority: p2\<newline>linear_cycle: Current Sprint\<newline>---\<newline># B''),
      (''001-pending-p1-a.md'',
       ''---\<newline>status: pending\<newline>priority: p1\<newline>linear_cycle: Next\<newline>---\<newline># A'')]"

text \<open>A file without front matter beside a file with front matter.\<close>

definition dir_m :: dir where
  "dir_m =
     [(''001-pending-p1-x.md'', ''just some notes''),
      (''002-pending-p2-y.md'', ''---\<newline>status: pending\<newline>priority: p2\<newline>---\<newline># Y'')]"

text \<open>Todo 001 depends on todo 002, which is pending in the first directory and completed
  in the second.\<close>

definition dir_dep_pending :: dir where
  "dir_dep_pending =
     [(''001-pending-p1-a.md'',
       ''---\<newline>status: pending\<newline>priority: p1\<newline>issue_id: 001\<newline>dependencies: [002]\<newline>---\<newline># A''),
      (''002-pending-p2-b.md'',
       ''---\<newline>status: pending\<newline>priority: p2\<newline>issue_id: 002\<newline>---\<newline># B'')]"

definition dir_dep_done :: dir where
  "dir_dep_done =
     [(''001-pending-p1-a.md'',
       ''---\<newline>status: pending\<newline>priority: p1\<newline>issue_id: 001\<newline>dependencies: [002]\<newline>---\<newline># A''),
      (''002-completed-p2-b.md'',
       ''---\<newline>status: completed\<newline>priority: p2\<newline>issue_id: 002\<newline>---\<newline># B'')]"

text \<open>Two creation specs: an ordinary one, and one that names the id it will get.\<close>

definition opts_fix :: create_options where
  "opts_fix = \<lparr>opt_priority = ''p2'', opt_title = ''Fix: the PARSER (v2)!!'',
     opt_description = None, opt_tags = None, opt_parentIssue = None, opt_linearIssue = None,
     opt_linearUrl = None, opt_dependencies = None\<rparr>"

definition opts_loop :: create_options where
  "opts_loop = \<lparr>opt_priority = ''p1'', opt_title = ''Loop'',
     opt_description = None, opt_tags = None, opt_parentIssue = None, opt_linearIssue = None,
     opt_linearUrl = None, opt_dependencies = Some [''001'']\<rparr>"

text \<open>
  A creation spec whose title has no letter and no digit, and the directory after
  \<^verbatim>\<open>create\<close> ran with it in an empty directory.
\<close>

definition opts_bang :: create_options where
  "opts_bang = \<lparr>opt_priority = ''p3'', opt_title = ''!!!'',
     opt_description = None, opt_tags = None, opt_parentIssue = None, opt_linearIssue = None,
     opt_linearUrl = None, opt_dependencies = None\<rparr>"

definition dir_bang :: dir where
  "dir_bang =
     [(''001-pending-p3-.md'', render (create_frontmatter ''001'' opts_bang) (create_body opts_bang))]"

text \<open>Todo 001 names its dependency as a bare word, not as a list; todo 002 is completed.\<close>

definition dir_dep_scalar :: dir where
  "dir_dep_scalar =
     [(''001-pending-p1-a.md'',
       ''---\<newline>status: pending\<newline>priority: p1\<newline>issue_id: 001\<newline>dependencies: 002\<newline>---\<newline># A''),
      (''002-completed-p2-b.md'',
       ''---\<newline>status: completed\<newline>priority: p2\<newline>issue_id: 002\<newline>---\<newline># B'')]"

text \<open>A repository with the main worktree and one managed worktree, and a remover that
  always succeeds.\<close>

definition rm_ok :: "(string list) remover" where
  "rm_ok p w = (Inr (), w @ [''rm -rf '' @ p])"

definition listing_two :: string where
  "listing_two =
     ''worktree /repo'' @ [nl] @ ''HEAD 1111'' @ [nl] @ ''branch refs/heads/main'' @ [nl, nl]
     @ ''worktree /repo/.worktrees/ralph-HOL-1'' @ [nl] @ ''HEAD 2222'' @ [nl]
     @ ''branch refs/heads/feature/one'' @ [nl]"

definition existing_two :: "worktree_info list" where
  "existing_two =
     [\<lparr>wt_name = ''repo'', wt_path = ''/repo'', wt_branch = ''main'', wt_commit = ''1111'',
       wt_isRalph = False\<rparr>,
      \<lparr>wt_name = ''ralph-HOL-1'', wt_path = ''/repo/.worktrees/ralph-HOL-1'',
       wt_branch = ''feature/one'', wt_commit = ''2222'', wt_isRalph = True\<rparr>]"

text \<open>A repository with a worktree named \<^verbatim>\<open>ralph-X\<close> outside the managed root.\<close>

definition listing_elsewhere :: string where
  "listing_elsewhere =
     ''worktree /repo'' @ [nl] @ ''HEAD 1111'' @ [nl] @ ''branch refs/heads/main'' @ [nl, nl]
     @ ''worktree /elsewhere/ralph-X'' @ [nl] @ ''HEAD 3333'' @ [nl]
     @ ''branch refs/heads/feature/x'' @ [nl]"

definition remove_command :: "string \<Rightarrow> string" where
  "remove_command p = ''git worktree remove '' @ [dquote] @ p @ [dquote] @ '' --force''"

definition add_command :: "string \<Rightarrow> string \<Rightarrow> string" where
  "add_command p branch =
     ''git worktree add '' @ [dquote] @ p @ [dquote] @ '' -b '' @ [dquote] @ branch @ [dquote]
     @ '' main''"

section \<open>Facts about the string functions\<close>

lemma split_first_Some:
  "split_first sep s = Some (a, b) \<Longrightarrow> s = a @ sep @ b"
proof (induction s arbitrary: a)
  case Nil
  then show ?case by (simp split: if_splits)
next
  case (Cons c cs)
  show ?case
  proof (cases "prefix sep (c # cs)")
    case True
    with Cons.prems have "a = []" and "b = drop (length sep) (c # cs)" by simp_all
    moreover from True obtain r where "c # cs = sep @ r" by (auto simp: prefix_def)
    ultimately show ?thesis by simp
  next
    case False
    with Cons.prems obtain a' where "split_first sep cs = Some (a', b)" and "a = c # a'"
      by auto
    with Cons.IH show ?thesis by simp
  qed
qed

lemma split_first_None:
  "split_first sep s = None \<Longrightarrow> \<not> sublist sep s"
proof (induction s)
  case Nil
  then show ?case by (simp split: if_splits)
next
  case (Cons c cs)
  then show ?case by (auto simp: sublist_Cons_right split: if_splits)
qed

lemma match_frontmatter_Some:
  "match_frontmatter txt = Some (y, b) \<Longrightarrow>
     txt = [CHR ''-'', CHR ''-'', CHR ''-'', nl] @ y @ [nl, CHR ''-'', CHR ''-'', CHR ''-'', nl] @ b"
proof -
  assume m: "match_frontmatter txt = Some (y, b)"
  then have p: "prefix [CHR ''-'', CHR ''-'', CHR ''-'', nl] txt"
    by (simp add: match_frontmatter_def split: if_splits)
  then obtain r where r: "txt = [CHR ''-'', CHR ''-'', CHR ''-'', nl] @ r"
    by (auto simp: prefix_def)
  with m p have "split_first [nl, CHR ''-'', CHR ''-'', CHR ''-'', nl] r = Some (y, b)"
    by (simp add: match_frontmatter_def)
  from split_first_Some [OF this] r show ?thesis by simp
qed

lemma match_frontmatter_None:
  assumes "match_frontmatter txt = None"
  shows "\<not> has_block txt"
proof
  assume "has_block txt"
  then obtain y b where c:
    "txt = [CHR ''-'', CHR ''-'', CHR ''-'', nl] @ y @ [nl, CHR ''-'', CHR ''-'', CHR ''-'', nl] @ b"
    by (auto simp: has_block_def)
  then have "prefix [CHR ''-'', CHR ''-'', CHR ''-'', nl] txt" by simp
  with assms c have "split_first [nl, CHR ''-'', CHR ''-'', CHR ''-'', nl]
      (y @ [nl, CHR ''-'', CHR ''-'', CHR ''-'', nl] @ b) = None"
    by (simp add: match_frontmatter_def)
  from split_first_None [OF this] show False by (simp add: sublist_def) blast
qed

section \<open>Facts about the listing and the sort\<close>

lemma prefix_iff_take: "prefix w ys \<longleftrightarrow> take (length w) ys = w"
  by (metis append_eq_conv_conj prefix_def take_is_prefix)

lemma includes_lower_iff: "includes_str (toLowerCase s) w \<longleftrightarrow> contains_ci s w"
proof (induction s)
  case Nil
  then show ?case by (simp add: includes_str_def toLowerCase_def)
next
  case (Cons c cs)
  have "sublist w (map lower_char (c # cs))
      \<longleftrightarrow> prefix w (map lower_char (c # cs)) \<or> sublist w (map lower_char cs)"
    by (simp add: sublist_Cons_right)
  also have "prefix w (map lower_char (c # cs))
      \<longleftrightarrow> map lower_char (take (length w) (c # cs)) = w"
    by (simp only: prefix_iff_take take_map)
  finally show ?case
    using Cons.IH by (simp add: includes_str_def toLowerCase_def)
qed

lemma cycleOrder_typed:
  assumes "typed_item t"
  shows "cycleOrder (map_of (frontmatter t) ''linear_cycle'') = Inr (groupRank t)"
  using assms
  by (auto simp: typed_item_def cycleOrder_def groupRank_def includes_lower_iff
      split: option.splits fmval.splits)

lemma priorityOrder_typed:
  assumes "typed_item t"
  shows "priorityOrder (map_of (frontmatter t) ''priority'') = Some (priorityRank t)"
  using assms
  by (auto simp: typed_item_def priorityOrder_def priorityRank_def)

lemma groupRank_range: "groupRank t \<in> {1, 2, 3}"
  by (auto simp: groupRank_def split: option.splits fmval.splits)

lemma compareTodos_typed:
  assumes "typed_item a" and "typed_item b"
  shows "\<exists>v. compareTodos a b = Inr (Num v) \<and> (v \<le> 0 \<longleftrightarrow> sort_key_of a \<le> sort_key_of b)"
  using assms
  by (auto simp: compareTodos_def cycleOrder_typed priorityOrder_typed sort_key_of_def
      parseInt_def less_eq_prod_def less_prod_def)

lemma insert_by_typed:
  assumes "typed_item x" and "list_all typed_item ys"
  shows "insert_by compareTodos x ys = Inr (insort_key sort_key_of x ys)"
  using assms(2)
proof (induction ys)
  case Nil
  then show ?case by simp
next
  case (Cons y ys)
  from Cons.prems have y: "typed_item y" and ys: "list_all typed_item ys" by simp_all
  from compareTodos_typed [OF assms(1) y] obtain v where
    v: "compareTodos x y = Inr (Num v)" and le: "v \<le> 0 \<longleftrightarrow> sort_key_of x \<le> sort_key_of y"
    by blast
  show ?case
    using v le Cons.IH [OF ys] by (simp add: sort_value_def)
qed

lemma list_all_insort:
  "list_all P (insort_key f x ys) \<longleftrightarrow> P x \<and> list_all P ys"
  by (induction ys) auto

lemma sort_by_typed:
  assumes "list_all typed_item xs"
  shows "sort_by compareTodos xs = Inr (sort_key sort_key_of xs)"
  using assms
proof (induction xs)
  case Nil
  then show ?case by simp
next
  case (Cons x xs)
  then have x: "typed_item x" and xs: "list_all typed_item xs" by simp_all
  have "list_all typed_item (sort_key sort_key_of xs)"
    using xs by (simp add: list_all_iff)
  from insert_by_typed [OF x this] Cons.IH [OF xs] show ?case by simp
qed


lemma listTodos_typed:
  assumes "list_all typed_item (read_todos statusFilter d)"
  shows "listTodos d statusFilter = Inr (sort_key sort_key_of (read_todos statusFilter d))"
  using assms by (simp add: listTodos_def sort_by_typed)

lemma read_todos_member:
  assumes "(fname, txt) \<in> set d" and "endsWith fname ''.md''"
    and "status_passes statusFilter (fst (parseFrontmatter txt))"
  shows "load_todo fname txt \<in> set (read_todos statusFilter d)"
  using assms by (induction d) auto

lemma read_todos_origin:
  assumes "t \<in> set (read_todos statusFilter d)"
  shows "\<exists>fname txt. (fname, txt) \<in> set d \<and> endsWith fname ''.md''
     \<and> status_passes statusFilter (fst (parseFrontmatter txt)) \<and> t = load_todo fname txt"
  using assms
proof (induction d)
  case Nil
  then show ?case by simp
next
  case (Cons e d)
  obtain f x where e: "e = (f, x)" by (cases e)
  show ?case
  proof (cases "t \<in> set (read_todos statusFilter d)")
    case True
    from Cons.IH [OF True] show ?thesis by auto
  next
    case False
    with Cons.prems e have "endsWith f ''.md''"
      and "status_passes statusFilter (fst (parseFrontmatter x))" and "t = load_todo f x"
      by (auto split: if_splits)
    with e show ?thesis by auto
  qed
qed

lemma sorted_split_by_bound:
  fixes f :: "'a \<Rightarrow> int"
  assumes "sorted (map f ys)"
  shows "filter (\<lambda>t. f t < c) ys @ filter (\<lambda>t. \<not> f t < c) ys = ys"
  using assms
proof (induction ys)
  case Nil
  then show ?case by simp
next
  case (Cons y ys)
  then have s: "sorted (map f ys)" and le: "\<forall>z \<in> set ys. f y \<le> f z" by auto
  show ?case
  proof (cases "f y < c")
    case True
    with Cons.IH [OF s] show ?thesis by simp
  next
    case False
    with le have "\<forall>z \<in> set ys. \<not> f z < c" by auto
    then have "filter (\<lambda>t. f t < c) ys = []" and "filter (\<lambda>t. \<not> f t < c) ys = ys"
      by (auto simp: filter_empty_conv filter_id_conv)
    with False show ?thesis by simp
  qed
qed

lemma sorted_key_groupRank:
  assumes "sorted (map sort_key_of ys)"
  shows "sorted (map groupRank ys)"
  using assms
  by (induction ys) (auto simp: sort_key_of_def less_eq_prod_def)

lemma trim_Nil: "trim [] = []"
  by (simp add: trim_def)

lemma deps_of_typed:
  assumes "typed_deps t"
  shows "deps_of (frontmatter t) = Inr (nonblank_deps t)"
proof -
  have "\<And>ds. filter (\<lambda>d. d \<noteq> [] \<and> trim d \<noteq> []) ds = filter (\<lambda>d. trim d \<noteq> []) ds"
    by (rule filter_cong) (auto simp: trim_Nil)
  with assms show ?thesis
    by (auto simp: typed_deps_def deps_of_def nonblank_deps_def split: option.splits fmval.splits)
qed

lemma first_ready_typed:
  assumes "list_all typed_deps ts"
  shows "first_ready ids ts = Inr (find (eligible (set ids)) ts)"
  using assms
proof (induction ts)
  case Nil
  then show ?case by simp
next
  case (Cons t ts)
  then have t: "typed_deps t" and ts: "list_all typed_deps ts" by simp_all
  have "filter (\<lambda>dep. dep \<notin> set ids) (nonblank_deps t) = [] \<longleftrightarrow> eligible (set ids) t"
    by (auto simp: eligible_def filter_empty_conv)
  with deps_of_typed [OF t] Cons.IH [OF ts] show ?case by simp
qed

lemma set_completedIds:
  "set (completedIds ts) =
     {s. s \<noteq> [] \<and> (\<exists>t \<in> set ts. map_of (frontmatter t) ''issue_id'' = Some (Str s))}"
  by (induction ts) (auto simp: completedIds_def split: option.splits fmval.splits if_splits)

lemma set_completedIds_sort:
  "set (completedIds (sort_key f ts)) = set (completedIds ts)"
  by (simp add: set_completedIds)

lemma getNextTodo_typed:
  assumes "list_all typed_item (read_todos (Some ''pending'') d)"
    and "list_all typed_item (read_todos (Some ''completed'') d)"
    and "list_all typed_deps (read_todos (Some ''pending'') d)"
  shows "getNextTodo d =
     Inr (find (eligible (set (completedIds (read_todos (Some ''completed'') d))))
            (sort_key sort_key_of (read_todos (Some ''pending'') d)))"
proof -
  have "list_all typed_deps (sort_key sort_key_of (read_todos (Some ''pending'') d))"
    using assms(3) by (simp add: list_all_iff)
  from first_ready_typed [OF this] show ?thesis
    by (simp add: getNextTodo_def listTodos_typed [OF assms(1)] listTodos_typed [OF assms(2)]
        set_completedIds_sort)
qed

lemma find_first:
  assumes "a \<in> set xs" and "P a" and "\<forall>t \<in> set (takeWhile (\<lambda>t. t \<noteq> a) xs). \<not> P t"
  shows "find P xs = Some a"
  using assms by (induction xs) (auto split: if_splits)

lemma find_Some_holds: "find P xs = Some a \<Longrightarrow> a \<in> set xs \<and> P a"
  by (induction xs) (auto split: if_splits)

lemma frontmatter_load_todo: "frontmatter (load_todo fname txt) = fst (parseFrontmatter txt)"
  by (simp add: load_todo_def split: prod.splits)

lemma filename_load_todo: "filename (load_todo fname txt) = fname"
  by (simp add: load_todo_def split: prod.splits)

lemma content_load_todo: "content (load_todo fname txt) = snd (parseFrontmatter txt)"
  by (simp add: load_todo_def split: prod.splits)

lemma parseFrontmatter_no_block:
  assumes "\<not> has_block txt"
  shows "parseFrontmatter txt = (default_frontmatter, txt)"
proof (cases "match_frontmatter txt")
  case None
  then show ?thesis by (simp add: parseFrontmatter_def)
next
  case (Some p)
  obtain y b where "p = (y, b)" by (cases p)
  with Some match_frontmatter_Some have "has_block txt"
    unfolding has_block_def by blast
  with assms show ?thesis by simp
qed

section \<open>The order of the listing\<close>

text \<open>
  C1, as amended. For every collection of todo files whose front matter is typed as the
  interface declares it (the priority is one of p1, p2, p3; the cycle is missing or a
  string) and whose ids are below \<open>2^53\<close>, \<^const>\<open>listTodos\<close> returns the parsed items sorted
  ascending and stably by the key (group rank, priority rank, numeric id): the result
  is sorted by the key, it is a permutation of the parsed items, and items with the same
  key keep the order in which the directory gave them.
\<close>

theorem listTodos_sorted_stable:
  assumes "list_all typed_item (read_todos statusFilter d)"
  shows "\<exists>ys. listTodos d statusFilter = Inr ys
     \<and> sorted (map sort_key_of ys)
     \<and> mset ys = mset (read_todos statusFilter d)
     \<and> (\<forall>k. filter (\<lambda>t. sort_key_of t = k) ys
            = filter (\<lambda>t. sort_key_of t = k) (read_todos statusFilter d))"
proof -
  let ?xs = "read_todos statusFilter d"
  let ?ys = "sort_key sort_key_of ?xs"
  have "listTodos d statusFilter = Inr ?ys"
    using assms by (rule listTodos_typed)
  moreover have "sorted (map sort_key_of ?ys)"
    by (rule sorted_sort_key)
  moreover have "mset ?ys = mset ?xs"
    by simp
  moreover have "\<forall>k. filter (\<lambda>t. sort_key_of t = k) ?ys = filter (\<lambda>t. sort_key_of t = k) ?xs"
    by (simp add: sort_key_stable)
  ultimately show ?thesis by blast
qed

lemma listTodos_dir_a:
  "listTodos dir_a None = Inr
     [\<lparr>filename = ''002-pending-p2-b.md'',
       frontmatter = [(''status'', Str ''pending''), (''priority'', Str ''p2''),
                      (''linear_cycle'', Str ''Current Sprint'')],
       title = ''B'', slug = ''b'', number = ''002'', content = ''# B''\<rparr>,
      \<lparr>filename = ''001-pending-p1-a.md'',
       frontmatter = [(''status'', Str ''pending''), (''priority'', Str ''p1''),
                      (''linear_cycle'', Str ''Next'')],
       title = ''A'', slug = ''a'', number = ''001'', content = ''# A''\<rparr>,
      \<lparr>filename = ''003-pending-p1-c.md'',
       frontmatter = [(''status'', Str ''pending''), (''priority'', Str ''p1'')],
       title = ''C'', slug = ''c'', number = ''003'', content = ''# C''\<rparr>]"
  by code_simp

lemma typed_dir_a: "list_all typed_item (read_todos None dir_a)"
  by code_simp

theorem listTodos_sorted_stable_witness:
  "list_all typed_item (read_todos None dir_a)
   \<and> (\<exists>ys. listTodos dir_a None = Inr ys
         \<and> map filename ys
             = [''002-pending-p2-b.md'', ''001-pending-p1-a.md'', ''003-pending-p1-c.md'']
         \<and> sorted (map sort_key_of ys))"
proof -
  from listTodos_sorted_stable [OF typed_dir_a] obtain ys where
    ys: "listTodos dir_a None = Inr ys" and s: "sorted (map sort_key_of ys)"
    by (elim exE conjE)
  from ys have n: "map filename ys
      = [''002-pending-p2-b.md'', ''001-pending-p1-a.md'', ''003-pending-p1-c.md'']"
    by (auto simp: listTodos_dir_a)
  have e: "\<exists>ys. listTodos dir_a None = Inr ys
         \<and> map filename ys
             = [''002-pending-p2-b.md'', ''001-pending-p1-a.md'', ''003-pending-p1-c.md'']
         \<and> sorted (map sort_key_of ys)"
    by (rule exI [of _ ys]) (simp add: ys n s)
  from typed_dir_a e show ?thesis by (rule conjI)
qed

theorem listTodos_array_cycle_counterexample:
  "listTodos
     [(''001-pending-p1-a.md'', ''---\<newline>priority: p1\<newline>linear_cycle: [current]\<newline>---\<newline># A''),
      (''002-pending-p1-b.md'', ''---\<newline>priority: p1\<newline>---\<newline># B'')] None
   = Inl (TypeError ''cycle.toLowerCase is not a function'')"
  by code_simp

lemma groupRank_ungrouped:
  assumes "map_of (frontmatter t) ''linear_cycle'' = None
     \<or> map_of (frontmatter t) ''linear_cycle'' = Some (Str [])"
  shows "groupRank t = 3"
  using assms by (auto simp: groupRank_def)

section \<open>Items without a cycle\<close>

text \<open>
  C5, as amended. \<^const>\<open>listTodos\<close> has no flag for the items without a group. For every
  collection of typed files, every item whose cycle is missing or empty is in the
  result (when its status passes the filter), with group rank 3, and the result is the
  items that have a group followed by the items that have none: they are sorted last,
  never left out.
\<close>

theorem listTodos_keeps_ungrouped:
  assumes "list_all typed_item (read_todos statusFilter d)"
  shows "\<exists>ys. listTodos d statusFilter = Inr ys
     \<and> (\<forall>(fname, txt) \<in> set d.
           endsWith fname ''.md'' \<and> status_passes statusFilter (fst (parseFrontmatter txt))
           \<and> (map_of (fst (parseFrontmatter txt)) ''linear_cycle'' = None
                \<or> map_of (fst (parseFrontmatter txt)) ''linear_cycle'' = Some (Str []))
           \<longrightarrow> load_todo fname txt \<in> set ys \<and> groupRank (load_todo fname txt) = 3)
     \<and> ys = filter (\<lambda>t. groupRank t < 3) ys @ filter (\<lambda>t. \<not> groupRank t < 3) ys"
proof -
  let ?xs = "read_todos statusFilter d"
  let ?ys = "sort_key sort_key_of ?xs"
  have l: "listTodos d statusFilter = Inr ?ys"
    using assms by (rule listTodos_typed)
  have m: "\<forall>(fname, txt) \<in> set d.
           endsWith fname ''.md'' \<and> status_passes statusFilter (fst (parseFrontmatter txt))
           \<and> (map_of (fst (parseFrontmatter txt)) ''linear_cycle'' = None
                \<or> map_of (fst (parseFrontmatter txt)) ''linear_cycle'' = Some (Str []))
           \<longrightarrow> load_todo fname txt \<in> set ?ys \<and> groupRank (load_todo fname txt) = 3"
  proof (intro ballI, clarify)
    fix fname x
    assume a: "(fname, x) \<in> set d" "endsWith fname ''.md''"
      "status_passes statusFilter (fst (parseFrontmatter x))"
      and u: "map_of (fst (parseFrontmatter x)) ''linear_cycle'' = None
                \<or> map_of (fst (parseFrontmatter x)) ''linear_cycle'' = Some (Str [])"
    from read_todos_member [OF a] have "load_todo fname x \<in> set ?ys" by simp
    moreover from u have "groupRank (load_todo fname x) = 3"
      by (intro groupRank_ungrouped) (simp add: frontmatter_load_todo)
    ultimately show "load_todo fname x \<in> set ?ys \<and> groupRank (load_todo fname x) = 3" ..
  qed
  have "sorted (map sort_key_of ?ys)" by (rule sorted_sort_key)
  then have "sorted (map groupRank ?ys)" by (rule sorted_key_groupRank)
  from sorted_split_by_bound [OF this, of 3]
  have p: "?ys = filter (\<lambda>t. groupRank t < 3) ?ys @ filter (\<lambda>t. \<not> groupRank t < 3) ?ys"
    by simp
  show ?thesis
    by (rule exI [of _ ?ys]) (use l m p in blast)
qed

lemma listTodos_dir_a_pending:
  "listTodos dir_a (Some ''pending'') = Inr
     [\<lparr>filename = ''002-pending-p2-b.md'',
       frontmatter = [(''status'', Str ''pending''), (''priority'', Str ''p2''),
                      (''linear_cycle'', Str ''Current Sprint'')],
       title = ''B'', slug = ''b'', number = ''002'', content = ''# B''\<rparr>,
      \<lparr>filename = ''001-pending-p1-a.md'',
       frontmatter = [(''status'', Str ''pending''), (''priority'', Str ''p1''),
                      (''linear_cycle'', Str ''Next'')],
       title = ''A'', slug = ''a'', number = ''001'', content = ''# A''\<rparr>,
      \<lparr>filename = ''003-pending-p1-c.md'',
       frontmatter = [(''status'', Str ''pending''), (''priority'', Str ''p1'')],
       title = ''C'', slug = ''c'', number = ''003'', content = ''# C''\<rparr>]"
  by code_simp

lemma typed_dir_a_pending: "list_all typed_item (read_todos (Some ''pending'') dir_a)"
  by code_simp

theorem listTodos_keeps_ungrouped_witness:
  "list_all typed_item (read_todos (Some ''pending'') dir_a)
   \<and> (\<exists>ys. listTodos dir_a (Some ''pending'') = Inr ys
         \<and> map filename ys
             = [''002-pending-p2-b.md'', ''001-pending-p1-a.md'', ''003-pending-p1-c.md'']
         \<and> ys = filter (\<lambda>t. groupRank t < 3) ys @ filter (\<lambda>t. \<not> groupRank t < 3) ys)"
proof -
  from listTodos_keeps_ungrouped [OF typed_dir_a_pending] obtain ys where
    ys: "listTodos dir_a (Some ''pending'') = Inr ys"
    and p: "ys = filter (\<lambda>t. groupRank t < 3) ys @ filter (\<lambda>t. \<not> groupRank t < 3) ys"
    by (elim exE conjE)
  from ys have n: "map filename ys
      = [''002-pending-p2-b.md'', ''001-pending-p1-a.md'', ''003-pending-p1-c.md'']"
    by (auto simp: listTodos_dir_a_pending)
  have e: "\<exists>ys. listTodos dir_a (Some ''pending'') = Inr ys
         \<and> map filename ys
             = [''002-pending-p2-b.md'', ''001-pending-p1-a.md'', ''003-pending-p1-c.md'']
         \<and> ys = filter (\<lambda>t. groupRank t < 3) ys @ filter (\<lambda>t. \<not> groupRank t < 3) ys"
    using ys n p by (intro exI [of _ ys] conjI)
  from typed_dir_a_pending e show ?thesis by (rule conjI)
qed

theorem listTodos_ungrouped_listed_counterexample:
  "listTodos
     [(''001-pending-p2-a.md'', ''---\<newline>status: pending\<newline>priority: p2\<newline>---\<newline># A'')]
     (Some ''pending'')
   = Inr [\<lparr>filename = ''001-pending-p2-a.md'',
           frontmatter = [(''status'', Str ''pending''), (''priority'', Str ''p2'')],
           title = ''A'', slug = ''a'', number = ''001'', content = ''# A''\<rparr>]"
  by code_simp

section \<open>Files without front matter in the listing\<close>

text \<open>
  C6, as amended. For every collection of typed files, a file whose text has no
  front-matter block does not abort the listing and is not skipped: when the filter
  is off or asks for pending, the result holds an item with the name of the file, the
  default front matter (status pending, priority p3) and the whole text as content, and
  the result is still a permutation of all the items read, so every other item is
  returned as well.
\<close>

theorem listTodos_lists_blockless_file:
  assumes "list_all typed_item (read_todos statusFilter d)"
    and "(fname, x) \<in> set d" and "endsWith fname ''.md''" and "\<not> has_block x"
    and "statusFilter = None \<or> statusFilter = Some [] \<or> statusFilter = Some ''pending''"
  shows "\<exists>ys. listTodos d statusFilter = Inr ys
     \<and> (\<exists>t \<in> set ys. filename t = fname
            \<and> frontmatter t = [(''status'', Str ''pending''), (''priority'', Str ''p3'')]
            \<and> content t = x)
     \<and> mset ys = mset (read_todos statusFilter d)"
proof -
  let ?xs = "read_todos statusFilter d"
  let ?ys = "sort_key sort_key_of ?xs"
  have l: "listTodos d statusFilter = Inr ?ys"
    using assms(1) by (rule listTodos_typed)
  have pf: "parseFrontmatter x = (default_frontmatter, x)"
    using assms(4) by (rule parseFrontmatter_no_block)
  have "status_passes statusFilter (fst (parseFrontmatter x))"
    using assms(5) by (auto simp: pf status_passes_def default_frontmatter_def)
  from read_todos_member [OF assms(2) assms(3) this]
  have m: "load_todo fname x \<in> set ?ys" by simp
  have f: "filename (load_todo fname x) = fname
      \<and> frontmatter (load_todo fname x) = [(''status'', Str ''pending''), (''priority'', Str ''p3'')]
      \<and> content (load_todo fname x) = x"
    by (simp add: filename_load_todo frontmatter_load_todo content_load_todo pf
        default_frontmatter_def)
  have p: "mset ?ys = mset ?xs" by simp
  show ?thesis
    by (rule exI [of _ ?ys]) (use l m f p in blast)
qed

lemma listTodos_dir_m:
  "listTodos dir_m None = Inr
     [\<lparr>filename = ''002-pending-p2-y.md'',
       frontmatter = [(''status'', Str ''pending''), (''priority'', Str ''p2'')],
       title = ''Y'', slug = ''y'', number = ''002'', content = ''# Y''\<rparr>,
      \<lparr>filename = ''001-pending-p1-x.md'',
       frontmatter = [(''status'', Str ''pending''), (''priority'', Str ''p3'')],
       title = ''Untitled'', slug = ''x'', number = ''001'', content = ''just some notes''\<rparr>]"
  by code_simp

lemma typed_dir_m: "list_all typed_item (read_todos None dir_m)"
  by code_simp

lemma no_block_notes: "\<not> has_block ''just some notes''"
  by (simp add: has_block_def)

theorem listTodos_lists_blockless_file_witness:
  "list_all typed_item (read_todos None dir_m)
   \<and> (''001-pending-p1-x.md'', ''just some notes'') \<in> set dir_m
   \<and> endsWith ''001-pending-p1-x.md'' ''.md''
   \<and> \<not> has_block ''just some notes''
   \<and> (\<exists>ys. listTodos dir_m None = Inr ys
         \<and> map filename ys = [''002-pending-p2-y.md'', ''001-pending-p1-x.md'']
         \<and> mset ys = mset (read_todos None dir_m))"
proof -
  have a: "(''001-pending-p1-x.md'', ''just some notes'') \<in> set dir_m"
    by (simp add: dir_m_def)
  have b: "endsWith ''001-pending-p1-x.md'' ''.md''"
    by code_simp
  have c: "(None :: string option) = None \<or> (None :: string option) = Some []
      \<or> (None :: string option) = Some ''pending''"
    by simp
  from listTodos_lists_blockless_file [OF typed_dir_m a b no_block_notes c] obtain ys where
    ys: "listTodos dir_m None = Inr ys" and p: "mset ys = mset (read_todos None dir_m)"
    by (elim exE conjE)
  from ys have n: "map filename ys = [''002-pending-p2-y.md'', ''001-pending-p1-x.md'']"
    by (auto simp: listTodos_dir_m)
  have e: "\<exists>ys. listTodos dir_m None = Inr ys
         \<and> map filename ys = [''002-pending-p2-y.md'', ''001-pending-p1-x.md'']
         \<and> mset ys = mset (read_todos None dir_m)"
    using ys n p by (intro exI [of _ ys] conjI)
  from typed_dir_m a b no_block_notes e show ?thesis by (intro conjI)
qed

theorem listTodos_blockless_listed_counterexample:
  "listTodos [(''001-pending-p1-x.md'', ''just some notes'')] None
   = Inr [\<lparr>filename = ''001-pending-p1-x.md'',
           frontmatter = [(''status'', Str ''pending''), (''priority'', Str ''p3'')],
           title = ''Untitled'', slug = ''x'', number = ''001'',
           content = ''just some notes''\<rparr>]"
  by code_simp

section \<open>The next todo and its dependencies\<close>

text \<open>
  C2, as amended. For files typed as the interface declares them (each priority one of
  the three tiers, each cycle missing or a string, the dependencies of each pending
  todo missing or a list, ids below \<open>2^53\<close>), \<^const>\<open>getNextTodo\<close> scans the
  pending todos in the order of the sort and returns the first one whose dependencies,
  the blank entries discarded, are all among the ids of the completed todos; it returns
  none exactly when no pending todo qualifies. So a todo with a dependency that is not
  completed, or that no todo has as its id, is never returned; and a todo whose
  dependencies are all completed is returned as soon as no todo before it in the queue
  qualifies.
\<close>

theorem getNextTodo_first_eligible:
  assumes "list_all typed_item (read_todos (Some ''pending'') d)"
    and "list_all typed_item (read_todos (Some ''completed'') d)"
    and "list_all typed_deps (read_todos (Some ''pending'') d)"
  shows "listTodos d (Some ''pending'') = Inr (pending_queue d)
     \<and> getNextTodo d = Inr (find (eligible (completed_ids d)) (pending_queue d))
     \<and> (\<forall>a b. b \<in> set (nonblank_deps a) \<and> b \<notin> completed_ids d
           \<longrightarrow> getNextTodo d \<noteq> Inr (Some a))
     \<and> (\<forall>a. a \<in> set (pending_queue d) \<and> set (nonblank_deps a) \<subseteq> completed_ids d
           \<and> (\<forall>t \<in> set (takeWhile (\<lambda>t. t \<noteq> a) (pending_queue d)).
                 \<not> set (nonblank_deps t) \<subseteq> completed_ids d)
           \<longrightarrow> getNextTodo d = Inr (Some a))
     \<and> (getNextTodo d = Inr None
           \<longleftrightarrow> (\<forall>t \<in> set (pending_queue d). \<not> set (nonblank_deps t) \<subseteq> completed_ids d))"
proof -
  have q: "listTodos d (Some ''pending'') = Inr (pending_queue d)"
    using assms(1) by (simp add: pending_queue_def listTodos_typed)
  have g: "getNextTodo d = Inr (find (eligible (completed_ids d)) (pending_queue d))"
    using assms by (simp add: getNextTodo_typed completed_ids_def pending_queue_def)
  have n: "\<forall>a b. b \<in> set (nonblank_deps a) \<and> b \<notin> completed_ids d
           \<longrightarrow> getNextTodo d \<noteq> Inr (Some a)"
  proof (intro allI impI notI)
    fix a b
    assume b: "b \<in> set (nonblank_deps a) \<and> b \<notin> completed_ids d"
      and r: "getNextTodo d = Inr (Some a)"
    from r g have "find (eligible (completed_ids d)) (pending_queue d) = Some a" by simp
    from find_Some_holds [OF this] have "eligible (completed_ids d) a" by simp
    with b show False by (auto simp: eligible_def)
  qed
  have f: "\<forall>a. a \<in> set (pending_queue d) \<and> set (nonblank_deps a) \<subseteq> completed_ids d
           \<and> (\<forall>t \<in> set (takeWhile (\<lambda>t. t \<noteq> a) (pending_queue d)).
                 \<not> set (nonblank_deps t) \<subseteq> completed_ids d)
           \<longrightarrow> getNextTodo d = Inr (Some a)"
  proof (intro allI impI)
    fix a
    assume a: "a \<in> set (pending_queue d) \<and> set (nonblank_deps a) \<subseteq> completed_ids d
           \<and> (\<forall>t \<in> set (takeWhile (\<lambda>t. t \<noteq> a) (pending_queue d)).
                 \<not> set (nonblank_deps t) \<subseteq> completed_ids d)"
    then have "find (eligible (completed_ids d)) (pending_queue d) = Some a"
      by (intro find_first) (auto simp: eligible_def)
    with g show "getNextTodo d = Inr (Some a)" by simp
  qed
  have e: "getNextTodo d = Inr None
           \<longleftrightarrow> (\<forall>t \<in> set (pending_queue d). \<not> set (nonblank_deps t) \<subseteq> completed_ids d)"
    by (auto simp: g find_None_iff eligible_def)
  from q g n f e show ?thesis by (intro conjI)
qed

lemma getNextTodo_dir_dep_done:
  "getNextTodo dir_dep_done = Inr (Some
     \<lparr>filename = ''001-pending-p1-a.md'',
      frontmatter = [(''status'', Str ''pending''), (''priority'', Str ''p1''),
                     (''issue_id'', Str ''001''), (''dependencies'', Arr [''002''])],
      title = ''A'', slug = ''a'', number = ''001'', content = ''# A''\<rparr>)"
  by code_simp

lemma getNextTodo_dir_dep_pending:
  "getNextTodo dir_dep_pending = Inr (Some
     \<lparr>filename = ''002-pending-p2-b.md'',
      frontmatter = [(''status'', Str ''pending''), (''priority'', Str ''p2''),
                     (''issue_id'', Str ''002'')],
      title = ''B'', slug = ''b'', number = ''002'', content = ''# B''\<rparr>)"
  by code_simp

lemma typed_dir_dep_done:
  "list_all typed_item (read_todos (Some ''pending'') dir_dep_done)"
  "list_all typed_item (read_todos (Some ''completed'') dir_dep_done)"
  "list_all typed_deps (read_todos (Some ''pending'') dir_dep_done)"
  by code_simp+

theorem getNextTodo_first_eligible_witness:
  "list_all typed_item (read_todos (Some ''pending'') dir_dep_done)
   \<and> list_all typed_item (read_todos (Some ''completed'') dir_dep_done)
   \<and> list_all typed_deps (read_todos (Some ''pending'') dir_dep_done)
   \<and> getNextTodo dir_dep_done
       = Inr (find (eligible (completed_ids dir_dep_done)) (pending_queue dir_dep_done))
   \<and> getNextTodo dir_dep_done = Inr (Some
       \<lparr>filename = ''001-pending-p1-a.md'',
        frontmatter = [(''status'', Str ''pending''), (''priority'', Str ''p1''),
                       (''issue_id'', Str ''001''), (''dependencies'', Arr [''002''])],
        title = ''A'', slug = ''a'', number = ''001'', content = ''# A''\<rparr>)
   \<and> getNextTodo dir_dep_pending = Inr (Some
       \<lparr>filename = ''002-pending-p2-b.md'',
        frontmatter = [(''status'', Str ''pending''), (''priority'', Str ''p2''),
                       (''issue_id'', Str ''002'')],
        title = ''B'', slug = ''b'', number = ''002'', content = ''# B''\<rparr>)"
proof -
  from getNextTodo_first_eligible [OF typed_dir_dep_done]
  have "getNextTodo dir_dep_done
       = Inr (find (eligible (completed_ids dir_dep_done)) (pending_queue dir_dep_done))"
    by (elim conjE)
  with typed_dir_dep_done getNextTodo_dir_dep_done getNextTodo_dir_dep_pending
  show ?thesis by (intro conjI)
qed

theorem getNextTodo_scalar_dependency_counterexample:
  "completedIds (read_todos (Some ''completed'') dir_dep_scalar) = [''002'']
   \<and> map filename (read_todos (Some ''pending'') dir_dep_scalar) = [''001-pending-p1-a.md'']
   \<and> map_of (fst (parseFrontmatter (snd (hd dir_dep_scalar)))) ''dependencies''
       = Some (Str ''002'')
   \<and> getNextTodo dir_dep_scalar
       = Inl (TypeError ''(todo.frontmatter.dependencies || []).filter is not a function'')"
  by code_simp

section \<open>Facts about numbers, slugs and created front matter\<close>

lemma dec_value_snoc: "dec_value (s @ [c]) = 10 * dec_value s + ((of_char c :: int) - 48)"
  by (simp add: dec_value_def)

lemma of_char_digit:
  assumes "0 \<le> k" and "k < 10"
  shows "(of_char (char_of (48 + k :: int)) :: int) = 48 + k"
  using assms by simp

lemma is_digit_char_of:
  assumes "0 \<le> k" and "k < 10"
  shows "is_digit (char_of (48 + k :: int))"
  unfolding is_digit_def of_char_digit [OF assms] using assms by simp

lemma Max_insert_max:
  "finite S \<Longrightarrow> Max (insert (max (m::int) g) S) = Max (insert m (insert g S))"
  by (cases "S = {}") (simp_all add: max.assoc)

lemma show_int_value: "0 \<le> n \<Longrightarrow> dec_value (show_int n) = n"
proof (induction n rule: show_int.induct)
  case (1 n)
  show ?case
  proof (cases "n < 10")
    case True
    with "1.prems" have "dec_value [char_of (48 + n)] = n"
      by (simp add: dec_value_def)
    with True show ?thesis by (subst show_int.simps) simp
  next
    case False
    with "1.prems" have d: "0 \<le> n div 10" by simp
    have m: "0 \<le> n mod 10" "n mod 10 < 10" by simp_all
    from False have "show_int n = show_int (n div 10) @ [char_of (48 + n mod 10)]"
      by (subst show_int.simps) simp
    then have "dec_value (show_int n) = 10 * dec_value (show_int (n div 10)) + n mod 10"
      using of_char_digit [OF m] by (simp add: dec_value_snoc)
    with "1.IH" [OF False d] show ?thesis by simp
  qed
qed

lemma show_int_digits: "0 \<le> n \<Longrightarrow> \<forall>c \<in> set (show_int n). is_digit c"
proof (induction n rule: show_int.induct)
  case (1 n)
  show ?case
  proof (cases "n < 10")
    case True
    from is_digit_char_of [OF "1.prems" True] True show ?thesis
      by (subst show_int.simps) simp
  next
    case False
    with "1.prems" have d: "0 \<le> n div 10" by simp
    have m: "0 \<le> n mod 10" "n mod 10 < 10" by simp_all
    have l: "is_digit (char_of (48 + n mod 10))"
      by (rule is_digit_char_of [OF m])
    from False have "show_int n = show_int (n div 10) @ [char_of (48 + n mod 10)]"
      by (subst show_int.simps) simp
    with l "1.IH" [OF False d] show ?thesis by simp
  qed
qed

lemma show_int_nonempty: "show_int n \<noteq> []"
  by (subst show_int.simps) simp

lemma show_int_short: "0 \<le> n \<Longrightarrow> n < 1000 \<Longrightarrow> length (show_int n) \<le> 3"
proof -
  assume a: "0 \<le> n" "n < 1000"
  have s1: "\<And>k. k < 10 \<Longrightarrow> length (show_int k) = 1"
    by (subst show_int.simps) simp
  have s2: "\<And>k. k < 100 \<Longrightarrow> length (show_int k) \<le> 2"
  proof -
    fix k :: int assume k: "k < 100"
    show "length (show_int k) \<le> 2"
    proof (cases "k < 10")
      case True then show ?thesis using s1 [of k] by simp
    next
      case False
      with k have "k div 10 < 10" by simp
      from s1 [OF this] False show ?thesis by (subst show_int.simps) simp
    qed
  qed
  show ?thesis
  proof (cases "n < 10")
    case True then show ?thesis using s1 [of n] by simp
  next
    case False
    with a have "n div 10 < 100" by simp
    from s2 [OF this] False show ?thesis by (subst show_int.simps) simp
  qed
qed

lemma dec_value_zeros: "dec_value (replicate k CHR ''0'' @ s) = dec_value s"
proof -
  have "foldl (\<lambda>n c. 10 * n + ((of_char c :: int) - 48)) 0 (replicate k CHR ''0'') = 0"
    by (induction k) simp_all
  then show ?thesis by (simp add: dec_value_def)
qed

lemma is_digit_zero: "is_digit CHR ''0''"
  by (simp add: is_digit_def)

lemma padStart3_facts:
  assumes "0 \<le> n"
  shows "dec_value (padStart3 (show_int n)) = n"
    and "3 \<le> length (padStart3 (show_int n))"
    and "\<forall>c \<in> set (padStart3 (show_int n)). is_digit c"
    and "n < 1000 \<longrightarrow> length (padStart3 (show_int n)) = 3"
proof -
  show "dec_value (padStart3 (show_int n)) = n"
    using assms by (simp add: padStart3_def dec_value_zeros show_int_value)
  show "3 \<le> length (padStart3 (show_int n))"
    by (simp add: padStart3_def)
  show "\<forall>c \<in> set (padStart3 (show_int n)). is_digit c"
  proof
    fix c assume "c \<in> set (padStart3 (show_int n))"
    then have "c = CHR ''0'' \<or> c \<in> set (show_int n)"
      by (auto simp: padStart3_def)
    with show_int_digits [OF assms] is_digit_zero show "is_digit c" by blast
  qed
  show "n < 1000 \<longrightarrow> length (padStart3 (show_int n)) = 3"
    using show_int_short [OF assms] by (auto simp: padStart3_def)
qed

lemma max_number_Max:
  "max_number m fs =
     Max (insert m ((\<lambda>f. parseInt (fst (parseFilename f))) ` {f \<in> set fs. endsWith f ''.md''}))"
proof (induction fs arbitrary: m)
  case Nil
  then show ?case by simp
next
  case (Cons f fs)
  let ?g = "\<lambda>f. parseInt (fst (parseFilename f))"
  let ?S = "?g ` {f \<in> set fs. endsWith f ''.md''}"
  have fin: "finite ?S" by simp
  show ?case
  proof (cases "endsWith f ''.md''")
    case False
    then have "{x \<in> set (f # fs). endsWith x ''.md''} = {x \<in> set fs. endsWith x ''.md''}"
      by auto
    with False Cons.IH [of m] show ?thesis by simp
  next
    case True
    then have e: "?g ` {x \<in> set (f # fs). endsWith x ''.md''} = insert (?g f) ?S"
      by auto
    have "max_number m (f # fs) = max_number (if ?g f > m then ?g f else m) fs"
      using True by (simp add: Let_def)
    also have "\<dots> = Max (insert (if ?g f > m then ?g f else m) ?S)"
      by (rule Cons.IH)
    also have "\<dots> = Max (insert (max m (?g f)) ?S)"
      by (simp add: max_def)
    also have "\<dots> = Max (insert m (insert (?g f) ?S))"
      using fin by (rule Max_insert_max)
    finally show ?thesis by (simp only: e)
  qed
qed

lemma parseFilename_number_digits: "\<forall>c \<in> set (fst (parseFilename fname)). is_digit c"
  by (auto simp: parseFilename_def match_filename_def Let_def is_digit_def
      split: option.splits list.splits if_splits dest: set_takeWhileD)

lemma parseFilename_file_id:
  assumes "match_filename fname \<noteq> None \<or> takeWhile is_digit fname = []"
  shows "parseInt (fst (parseFilename fname)) = file_id fname"
proof (cases "match_filename fname")
  case None
  with assms have "takeWhile is_digit fname = []" by simp
  with None show ?thesis
    by (simp add: parseFilename_def parseInt_def file_id_def dec_value_def)
next
  case (Some g)
  then have "fst g = takeWhile is_digit fname"
    by (auto simp: match_filename_def Let_def split: list.splits if_splits)
  with Some show ?thesis
    by (simp add: parseFilename_def parseInt_def file_id_def)
qed

lemma getNextNumber_next_id:
  assumes "well_named d"
  shows "getNextNumber d = padStart3 (show_int (next_id d))"
proof -
  have "(\<lambda>f. parseInt (fst (parseFilename f))) ` {f \<in> set (map fst d). endsWith f ''.md''}
      = file_id ` {f \<in> set (map fst d). endsWith f ''.md''}"
  proof (rule image_cong [OF refl])
    fix f assume "f \<in> {f \<in> set (map fst d). endsWith f ''.md''}"
    with assms have "match_filename f \<noteq> None \<or> takeWhile is_digit f = []"
      by (auto simp: well_named_def list_all_iff)
    then show "parseInt (fst (parseFilename f)) = file_id f"
      by (rule parseFilename_file_id)
  qed
  then show ?thesis
    by (simp add: getNextNumber_def next_id_def existing_ids_def max_number_Max)
qed

lemma next_id_positive: "1 \<le> next_id d"
proof -
  have "finite (existing_ids d)" by (simp add: existing_ids_def)
  then have "0 \<le> Max (insert 0 (existing_ids d))" by simp
  then show ?thesis by (simp add: next_id_def)
qed

lemma replace_runs_chars: "\<forall>c \<in> set (replace_runs s). is_slug_char c \<or> c = CHR ''-''"
  by (induction s rule: replace_runs.induct) auto

lemma replace_runs_head:
  "replace_runs s \<noteq> [] \<Longrightarrow> hd (replace_runs s) = CHR ''-'' \<Longrightarrow> \<not> is_slug_char (hd s)"
  by (cases s) (auto simp: is_slug_char_def split: if_splits)

lemma dropWhile_head: "dropWhile P xs \<noteq> [] \<Longrightarrow> \<not> P (hd (dropWhile P xs))"
  by (metis hd_dropWhile)

lemma replace_runs_Nil: "replace_runs s = [] \<longleftrightarrow> s = []"
  by (cases s) auto

lemma replace_runs_no_double: "\<not> sublist ''--'' (replace_runs s)"
proof (induction s rule: replace_runs.induct)
  case 1
  then show ?case by simp
next
  case (2 c cs)
  show ?case
  proof (cases "is_slug_char c")
    case True
    then have "c \<noteq> CHR ''-''" by (auto simp: is_slug_char_def)
    with True "2.IH"(1) show ?thesis by (simp add: sublist_Cons_right)
  next
    case False
    let ?t = "dropWhile (\<lambda>x. \<not> is_slug_char x) cs"
    have "\<not> prefix ''-'' (replace_runs ?t)"
    proof
      assume p: "prefix ''-'' (replace_runs ?t)"
      then have ne: "replace_runs ?t \<noteq> []" and h: "hd (replace_runs ?t) = CHR ''-''"
        by (auto simp: prefix_def)
      from replace_runs_head [OF ne h] have "\<not> is_slug_char (hd ?t)" .
      moreover from ne have "?t \<noteq> []" by (simp add: replace_runs_Nil)
      then have "is_slug_char (hd ?t)" using dropWhile_head [of "\<lambda>x. \<not> is_slug_char x" cs] by simp
      ultimately show False by simp
    qed
    with False "2.IH"(2) show ?thesis by (simp add: sublist_Cons_right)
  qed
qed

lemma strip_hyphens_sublist: "sublist (strip_hyphens s) s"
proof -
  let ?s1 = "case s of [] \<Rightarrow> [] | c # cs \<Rightarrow> if c = CHR ''-'' then cs else s"
  have a: "sublist ?s1 s" by (cases s) (auto simp: sublist_Cons_right)
  have "strip_hyphens s = ?s1 \<or> strip_hyphens s = butlast ?s1"
    by (simp add: strip_hyphens_def Let_def)
  moreover have "sublist (butlast ?s1) s"
    using sublist_butlast a by (rule sublist_order.order.trans)
  ultimately show ?thesis using a by auto
qed

lemma strip_hyphens_no_lead:
  assumes "\<not> sublist ''--'' s"
  shows "\<not> prefix ''-'' (strip_hyphens s)"
proof -
  let ?s1 = "case s of [] \<Rightarrow> [] | c # cs \<Rightarrow> if c = CHR ''-'' then cs else s"
  have a: "\<not> prefix ''-'' ?s1"
  proof (cases s)
    case Nil
    then show ?thesis by simp
  next
    case (Cons c cs)
    show ?thesis
    proof (cases "c = CHR ''-''")
      case True
      have "\<not> prefix ''-'' cs"
      proof
        assume "prefix ''-'' cs"
        then have "prefix ''--'' s" using Cons True by (auto simp: prefix_def)
        then have "sublist ''--'' s" by (rule prefix_imp_sublist)
        with assms show False ..
      qed
      with Cons True show ?thesis by simp
    next
      case False
      with Cons show ?thesis by simp
    qed
  qed
  have b: "\<not> prefix ''-'' (butlast ?s1) \<or> (?s1 \<noteq> [] \<and> last ?s1 \<noteq> CHR ''-'')"
  proof (cases "?s1")
    case Nil
    then show ?thesis by simp
  next
    case (Cons x xs)
    with a have "x \<noteq> CHR ''-''" by simp
    with Cons show ?thesis by (cases xs) auto
  qed
  show ?thesis
  proof (cases "?s1 \<noteq> [] \<and> last ?s1 = CHR ''-''")
    case True
    then have "strip_hyphens s = butlast ?s1" by (simp add: strip_hyphens_def Let_def)
    with b True show ?thesis by auto
  next
    case False
    then have "strip_hyphens s = ?s1" by (auto simp: strip_hyphens_def Let_def)
    with a show ?thesis by simp
  qed
qed

lemma make_slug_facts:
  "length (make_slug ttl) \<le> 50"
  "\<forall>c \<in> set (make_slug ttl). is_slug_char c \<or> c = CHR ''-''"
  "\<not> sublist ''--'' (make_slug ttl)"
  "\<not> prefix ''-'' (make_slug ttl)"
proof -
  let ?r = "replace_runs (toLowerCase ttl)"
  let ?s = "strip_hyphens ?r"
  show "length (make_slug ttl) \<le> 50" by (simp add: make_slug_def)
  have sub: "sublist (make_slug ttl) ?r"
    unfolding make_slug_def
    using sublist_take strip_hyphens_sublist by (rule sublist_order.order.trans)
  then have "set (make_slug ttl) \<subseteq> set ?r" by (rule set_mono_sublist)
  with replace_runs_chars show "\<forall>c \<in> set (make_slug ttl). is_slug_char c \<or> c = CHR ''-''"
    by blast
  show "\<not> sublist ''--'' (make_slug ttl)"
  proof
    assume "sublist ''--'' (make_slug ttl)"
    from this sub have "sublist ''--'' ?r" by (rule sublist_order.order.trans)
    with replace_runs_no_double show False ..
  qed
  have "\<not> prefix ''-'' ?s"
    using replace_runs_no_double by (rule strip_hyphens_no_lead)
  moreover have "prefix ''-'' (take 50 ?s) \<Longrightarrow> prefix ''-'' ?s"
    using take_is_prefix [of 50 ?s] by (auto simp: prefix_def)
  ultimately show "\<not> prefix ''-'' (make_slug ttl)"
    by (auto simp: make_slug_def)
qed

lemma replace_runs_run:
  assumes "r \<noteq> []" and "\<forall>c \<in> set r. \<not> is_slug_char c" and "b = [] \<or> is_slug_char (hd b)"
  shows "replace_runs (r @ b) = CHR ''-'' # replace_runs b"
proof -
  from assms(1) obtain c cs where r: "r = c # cs" by (cases r) auto
  from assms(2) r have c: "\<not> is_slug_char c" and cs: "\<forall>x \<in> set cs. \<not> is_slug_char x" by auto
  from cs assms(3) have "dropWhile (\<lambda>x. \<not> is_slug_char x) (cs @ b) = b"
    by (cases b) (auto simp: dropWhile_append)
  with c r show ?thesis by simp
qed

lemma replace_runs_keep:
  assumes "\<forall>c \<in> set a. is_slug_char c"
  shows "replace_runs (a @ b) = a @ replace_runs b"
  using assms by (induction a) auto

lemma assign_fresh: "k \<notin> fst ` set fm \<Longrightarrow> assign fm k v = fm @ [(k, v)]"
  by (induction fm) auto

lemma map_of_assign: "map_of (assign fm k v) = (map_of fm)(k \<mapsto> v)"
  by (induction fm) auto

lemma create_frontmatter_shape:
  "\<exists>rest. create_frontmatter num opts =
      (''status'', Str ''pending'') # (''priority'', Str (opt_priority opts))
      # (''issue_id'', Str num) # rest
    \<and> fst ` set rest \<subseteq> {''tags'', ''linear_issue'', ''linear_url'', ''dependencies''}"
  by (auto simp: create_frontmatter_def Let_def split: option.splits)

lemma not_index_word:
  "\<not> is_array_index ''status''" "\<not> is_array_index ''priority''" "\<not> is_array_index ''issue_id''"
  "\<not> is_array_index ''tags''" "\<not> is_array_index ''linear_issue''"
  "\<not> is_array_index ''linear_url''" "\<not> is_array_index ''dependencies''"
  by (simp_all add: is_array_index_def is_digit_def)

lemma entries_no_index:
  assumes "\<forall>k \<in> fst ` set fm. \<not> is_array_index k"
  shows "entries fm = fm"
proof -
  have "filter (\<lambda>(k, v). is_array_index k) fm = []"
    using assms by (auto simp: filter_empty_conv)
  moreover have "filter (\<lambda>(k, v). \<not> is_array_index k) fm = fm"
    using assms by (auto simp: filter_id_conv)
  ultimately show ?thesis by (simp add: entries_def)
qed

lemma entries_create_frontmatter:
  "entries (create_frontmatter num opts) = create_frontmatter num opts"
proof (rule entries_no_index)
  from create_frontmatter_shape [of num opts] obtain rest where
    e: "create_frontmatter num opts =
      (''status'', Str ''pending'') # (''priority'', Str (opt_priority opts))
      # (''issue_id'', Str num) # rest"
    and r: "fst ` set rest \<subseteq> {''tags'', ''linear_issue'', ''linear_url'', ''dependencies''}"
    by blast
  show "\<forall>k \<in> fst ` set (create_frontmatter num opts). \<not> is_array_index k"
  proof
    fix k assume "k \<in> fst ` set (create_frontmatter num opts)"
    with e r have "k \<in> {''status'', ''priority'', ''issue_id'', ''tags'', ''linear_issue'',
        ''linear_url'', ''dependencies''}"
      by auto
    with not_index_word show "\<not> is_array_index k" by auto
  qed
qed

lemma render_create_prefix:
  "prefix ([CHR ''-'', CHR ''-'', CHR ''-'', nl] @ ''status: pending'' @ [nl])
     (render (create_frontmatter num opts) body)"
proof -
  from create_frontmatter_shape [of num opts] obtain rest where
    e: "create_frontmatter num opts =
      (''status'', Str ''pending'') # (''priority'', Str (opt_priority opts))
      # (''issue_id'', Str num) # rest"
    by blast
  have "serializeFrontmatter (create_frontmatter num opts)
      = ''status: pending'' @ [nl]
        @ join [nl] (map serialize_entry ((''priority'', Str (opt_priority opts))
            # (''issue_id'', Str num) # rest))"
    unfolding serializeFrontmatter_def entries_create_frontmatter
    by (simp add: e)
  then show ?thesis by (simp add: render_def)
qed

lemma join_snoc_suffix: "suffix l (join sep (ls @ [l]))"
proof (induction ls)
  case Nil
  then show ?case by simp
next
  case (Cons a ls)
  then show ?case
    by (cases "ls @ [l]") (auto simp: suffix_def)
qed

lemma create_frontmatter_dependencies:
  assumes "opt_dependencies opts = Some ds" and "ds \<noteq> []"
  shows "\<exists>fm2. create_frontmatter num opts = fm2 @ [(''dependencies'', Arr ds)]"
  using assms
  by (auto simp: create_frontmatter_def Let_def)

section \<open>The id, the slug and the state of a created todo\<close>

text \<open>
  C8, as amended. For a directory in which every \<^verbatim>\<open>.md\<close> name that starts with a digit
  has the shape of an item name with a slug that is not empty, and whose next id is
  below \<open>2^53\<close>, \<^const>\<open>createTodo\<close> writes one file. Its number is the maximum of the ids of
  the existing files (0 when there is none) plus one, printed in decimal and padded with
  zeros to at least three digits: exactly three below 1000, more from 1000 on. Its slug
  is the title in lower case with each run of characters outside a-z and 0-9 replaced
  by one hyphen, one hyphen removed at each end, cut to the first 50 characters: it has
  at most 50 characters, only letters, digits and single hyphens, and no hyphen at the
  start. The file name carries the state pending and the front matter starts with the
  line \<^verbatim>\<open>status: pending\<close>.
\<close>

theorem createTodo_allocates_id_and_slug:
  assumes "well_named d" and "next_id d \<le> max_safe"
  shows "\<exists>num slg fm.
     createTodo d opts =
       ([WriteOp (num @ ''-pending-'' @ opt_priority opts @ ''-'' @ slg @ ''.md'')
           (render fm (create_body opts))],
        num @ ''-pending-'' @ opt_priority opts @ ''-'' @ slg @ ''.md'', num)
     \<and> num = padStart3 (show_int (next_id d)) \<and> dec_value num = next_id d
     \<and> 3 \<le> length num \<and> (next_id d < 1000 \<longrightarrow> length num = 3)
     \<and> (\<forall>c \<in> set num. is_digit c)
     \<and> slg = take 50 (strip_hyphens (replace_runs (toLowerCase (opt_title opts))))
     \<and> length slg \<le> 50 \<and> (\<forall>c \<in> set slg. is_slug_char c \<or> c = CHR ''-'')
     \<and> \<not> sublist ''--'' slg \<and> \<not> prefix ''-'' slg
     \<and> map_of fm ''status'' = Some (Str ''pending'') \<and> map_of fm ''issue_id'' = Some (Str num)
     \<and> prefix ([CHR ''-'', CHR ''-'', CHR ''-'', nl] @ ''status: pending'' @ [nl])
          (render fm (create_body opts))"
proof -
  let ?num = "padStart3 (show_int (next_id d))"
  let ?slg = "make_slug (opt_title opts)"
  let ?fm = "create_frontmatter ?num opts"
  have n0: "0 \<le> next_id d" using next_id_positive [of d] by simp
  have c: "createTodo d opts =
       ([WriteOp (?num @ ''-pending-'' @ opt_priority opts @ ''-'' @ ?slg @ ''.md'')
           (render ?fm (create_body opts))],
        ?num @ ''-pending-'' @ opt_priority opts @ ''-'' @ ?slg @ ''.md'', ?num)"
    by (simp add: createTodo_def Let_def getNextNumber_next_id [OF assms(1)] buildFilename_def)
  from create_frontmatter_shape [of ?num opts] obtain rest where
    e: "?fm = (''status'', Str ''pending'') # (''priority'', Str (opt_priority opts))
      # (''issue_id'', Str ?num) # rest"
    by blast
  have m: "map_of ?fm ''status'' = Some (Str ''pending'')"
    "map_of ?fm ''issue_id'' = Some (Str ?num)"
    by (simp_all add: e)
  have s: "?slg = take 50 (strip_hyphens (replace_runs (toLowerCase (opt_title opts))))"
    by (simp add: make_slug_def)
  show ?thesis
    apply (rule exI [of _ ?num])
    apply (rule exI [of _ ?slg])
    apply (rule exI [of _ ?fm])
    apply (intro conjI)
                 apply (rule c)
                apply (rule refl)
               apply (rule padStart3_facts(1) [OF n0])
              apply (rule padStart3_facts(2) [OF n0])
             apply (rule padStart3_facts(4) [OF n0])
            apply (rule padStart3_facts(3) [OF n0])
           apply (rule s)
          apply (rule make_slug_facts(1))
         apply (rule make_slug_facts(2))
        apply (rule make_slug_facts(3))
       apply (rule make_slug_facts(4))
      apply (rule m(1))
     apply (rule m(2))
    apply (rule render_create_prefix)
    done
qed

lemma well_named_dir_a: "well_named dir_a"
  by code_simp

lemma next_id_dir_a: "next_id dir_a = 4"
proof -
  have "getNextNumber dir_a = ''004''" by code_simp
  then have "dec_value (padStart3 (show_int (next_id dir_a))) = dec_value ''004''"
    by (simp add: getNextNumber_next_id [OF well_named_dir_a])
  moreover have "0 \<le> next_id dir_a" using next_id_positive [of dir_a] by simp
  ultimately have "next_id dir_a = dec_value ''004''"
    by (simp add: padStart3_facts(1))
  then show ?thesis by (simp add: dec_value_def)
qed

lemma createTodo_dir_a_names:
  "snd (createTodo dir_a opts_fix) = (''004-pending-p2-fix-the-parser-v2.md'', ''004'')"
  by code_simp

theorem createTodo_allocates_id_and_slug_witness:
  "well_named dir_a
   \<and> next_id dir_a \<le> max_safe
   \<and> next_id dir_a = 4
   \<and> snd (createTodo dir_a opts_fix) = (''004-pending-p2-fix-the-parser-v2.md'', ''004'')
   \<and> (\<exists>num slg fm.
        createTodo dir_a opts_fix =
          ([WriteOp (num @ ''-pending-'' @ opt_priority opts_fix @ ''-'' @ slg @ ''.md'')
              (render fm (create_body opts_fix))],
           num @ ''-pending-'' @ opt_priority opts_fix @ ''-'' @ slg @ ''.md'', num)
        \<and> dec_value num = next_id dir_a \<and> length slg \<le> 50)"
proof -
  have h: "next_id dir_a \<le> max_safe"
    by (simp add: next_id_dir_a max_safe_def)
  from createTodo_allocates_id_and_slug [OF well_named_dir_a h, of opts_fix]
  obtain num slg fm where
    c: "createTodo dir_a opts_fix =
          ([WriteOp (num @ ''-pending-'' @ opt_priority opts_fix @ ''-'' @ slg @ ''.md'')
              (render fm (create_body opts_fix))],
           num @ ''-pending-'' @ opt_priority opts_fix @ ''-'' @ slg @ ''.md'', num)"
    and v: "dec_value num = next_id dir_a" and l: "length slg \<le> 50"
    by (elim exE conjE)
  from c v l have e: "\<exists>num slg fm.
        createTodo dir_a opts_fix =
          ([WriteOp (num @ ''-pending-'' @ opt_priority opts_fix @ ''-'' @ slg @ ''.md'')
              (render fm (create_body opts_fix))],
           num @ ''-pending-'' @ opt_priority opts_fix @ ''-'' @ slg @ ''.md'', num)
        \<and> dec_value num = next_id dir_a \<and> length slg \<le> 50"
    by (intro exI conjI)
  from well_named_dir_a h next_id_dir_a createTodo_dir_a_names e show ?thesis
    by (intro conjI)
qed

theorem createTodo_repeats_id_counterexample:
  "apply_ops [] (fst (createTodo [] opts_bang)) = Inr dir_bang
   \<and> snd (createTodo [] opts_bang) = (''001-pending-p3-.md'', ''001'')
   \<and> existing_ids dir_bang = {1}
   \<and> next_id dir_bang = 2
   \<and> snd (createTodo dir_bang opts_bang) = (''001-pending-p3-.md'', ''001'')
   \<and> next_id [(''999-pending-p1-x.md'', [])] = 1000
   \<and> getNextNumber [(''999-pending-p1-x.md'', [])] = ''1000''"
  by code_simp

section \<open>Dependencies of a created todo\<close>

text \<open>
  C4, as amended. \<^const>\<open>createTodo\<close> does not compare the dependency list with the id it
  assigns. Every creation spec is accepted, and a dependency list that is not empty is
  stored unchanged as the dependencies of the new item, as the last line of its front
  matter, also when the list holds the id of the new item itself.
\<close>

theorem createTodo_stores_dependencies:
  assumes "opt_dependencies opts = Some ds" and "ds \<noteq> []"
  shows "\<exists>fname fm.
     createTodo d opts = ([WriteOp fname (render fm (create_body opts))], fname, getNextNumber d)
     \<and> map_of fm ''issue_id'' = Some (Str (getNextNumber d))
     \<and> map_of fm ''dependencies'' = Some (Arr ds)
     \<and> suffix (serialize_entry (''dependencies'', Arr ds)) (serializeFrontmatter fm)"
proof -
  let ?num = "getNextNumber d"
  let ?fm = "create_frontmatter ?num opts"
  let ?fname = "buildFilename ?num ''pending'' (opt_priority opts) (make_slug (opt_title opts))"
  have c: "createTodo d opts = ([WriteOp ?fname (render ?fm (create_body opts))], ?fname, ?num)"
    by (simp add: createTodo_def Let_def)
  from create_frontmatter_shape [of ?num opts] obtain rest where
    e: "?fm = (''status'', Str ''pending'') # (''priority'', Str (opt_priority opts))
      # (''issue_id'', Str ?num) # rest"
    by blast
  have i: "map_of ?fm ''issue_id'' = Some (Str ?num)"
    by (simp add: e)
  have dp: "map_of ?fm ''dependencies'' = Some (Arr ds)"
    using assms by (simp add: create_frontmatter_def Let_def map_of_assign)
  from create_frontmatter_dependencies [OF assms, of ?num] obtain fm2 where
    f: "?fm = fm2 @ [(''dependencies'', Arr ds)]" by blast
  have "serializeFrontmatter ?fm
      = join [nl] (map serialize_entry fm2 @ [serialize_entry (''dependencies'', Arr ds)])"
    unfolding serializeFrontmatter_def entries_create_frontmatter by (simp add: f)
  then have s: "suffix (serialize_entry (''dependencies'', Arr ds)) (serializeFrontmatter ?fm)"
    by (simp only: join_snoc_suffix)
  from c i dp s show ?thesis by (intro exI conjI)
qed

lemma getNextNumber_empty: "getNextNumber [] = ''001''"
  by code_simp

theorem createTodo_stores_dependencies_witness:
  "opt_dependencies opts_loop = Some [''001''] \<and> [''001''] \<noteq> ([] :: string list)
   \<and> getNextNumber [] = ''001''
   \<and> (\<exists>fname fm.
        createTodo [] opts_loop
          = ([WriteOp fname (render fm (create_body opts_loop))], fname, getNextNumber [])
        \<and> map_of fm ''issue_id'' = Some (Str (getNextNumber []))
        \<and> map_of fm ''dependencies'' = Some (Arr [''001'']))"
proof -
  have a: "opt_dependencies opts_loop = Some [''001'']" by (simp add: opts_loop_def)
  have b: "[''001''] \<noteq> ([] :: string list)" by simp
  from createTodo_stores_dependencies [OF a b, of "[]"] obtain fname fm where
    c: "createTodo [] opts_loop
          = ([WriteOp fname (render fm (create_body opts_loop))], fname, getNextNumber [])"
    and i: "map_of fm ''issue_id'' = Some (Str (getNextNumber []))"
    and dp: "map_of fm ''dependencies'' = Some (Arr [''001''])"
    by (elim exE conjE)
  from c i dp have e: "\<exists>fname fm.
        createTodo [] opts_loop
          = ([WriteOp fname (render fm (create_body opts_loop))], fname, getNextNumber [])
        \<and> map_of fm ''issue_id'' = Some (Str (getNextNumber []))
        \<and> map_of fm ''dependencies'' = Some (Arr [''001''])"
    by (intro exI conjI)
  from a b getNextNumber_empty e show ?thesis by (intro conjI)
qed

theorem createTodo_self_dependency_counterexample:
  "parseCreateArgs [''--priority'', ''p1'', ''--title'', ''Loop'', ''--dependencies'', ''001'']
     = Inr opts_loop
   \<and> snd (createTodo [] opts_loop) = (''001-pending-p1-loop.md'', ''001'')
   \<and> created_dependencies [] opts_loop = Some (Arr [''001''])"
  by code_simp

section \<open>Facts about worktrees\<close>

lemma parse_entry_ralph:
  "x \<in> set (parse_entry all entry) \<Longrightarrow> wt_isRalph x = startsWith (wt_name x) ''ralph-''"
  by (auto simp: parse_entry_def Let_def split: option.splits if_splits)

lemma parse_entry_filter:
  "parse_entry False entry = filter wt_isRalph (parse_entry True entry)"
  by (auto simp: parse_entry_def Let_def split: option.splits)

lemma parse_worktrees_ralph:
  "x \<in> set (parse_worktrees all output) \<Longrightarrow> wt_isRalph x = startsWith (wt_name x) ''ralph-''"
  by (auto simp: parse_worktrees_def dest: parse_entry_ralph)

lemma parse_worktrees_filter:
  "parse_worktrees False output
     = filter (\<lambda>x. startsWith (wt_name x) ''ralph-'') (parse_worktrees True output)"
proof -
  have "parse_worktrees False output = filter wt_isRalph (parse_worktrees True output)"
    by (simp add: parse_worktrees_def filter_concat comp_def parse_entry_filter [symmetric])
  also have "\<dots> = filter (\<lambda>x. startsWith (wt_name x) ''ralph-'') (parse_worktrees True output)"
    by (rule filter_cong) (auto dest: parse_worktrees_ralph)
  finally show ?thesis .
qed

lemma find_by_filter:
  "find P xs = (case filter P xs of [] \<Rightarrow> None | x # ys \<Rightarrow> Some x)"
  by (induction xs) auto

lemma manual_cleanup_by_hand:
  "manual_cleanup sh rm root name msg w = remove_by_hand sh rm root name msg w"
  by (auto simp: manual_cleanup_def remove_by_hand_def managed_path_def worktree_path_def
      WORKTREES_DIR_def split: prod.splits sum.splits)

lemma snd_run: "snd (run sh command cwd w) = snd (sh command cwd w)"
  by (simp add: run_def split: prod.splits sum.splits)

lemma deleteWorktree_by_name:
  "deleteWorktree sh rm root name w = delete_by_name sh rm root name w"
proof -
  obtain r w1 where l: "run sh ''git worktree list --porcelain'' root w = (r, w1)"
    by (cases "run sh ''git worktree list --porcelain'' root w")
  show ?thesis
  proof (cases r)
    case (Inl msg)
    with l show ?thesis
      by (simp add: deleteWorktree_def delete_by_name_def listWorktrees_def
          manual_cleanup_by_hand)
  next
    case (Inr out)
    show ?thesis
    proof (cases "filter (\<lambda>x. wt_name x = name) (parse_worktrees True out)")
      case Nil
      with l Inr show ?thesis
        by (simp add: deleteWorktree_def delete_by_name_def listWorktrees_def find_by_filter)
    next
      case (Cons x xs)
      with l Inr show ?thesis
        by (auto simp: deleteWorktree_def delete_by_name_def listWorktrees_def find_by_filter
            remove_commands_def managed_path_def worktree_path_def WORKTREES_DIR_def
            branch_command_def manual_cleanup_by_hand snd_run [symmetric]
            split: prod.splits sum.splits)
    qed
  qed
qed

lemma cleanup_loop_each:
  assumes "list_all wt_isRalph wts"
  shows "cleanup_loop sh rm root wts cleaned errors w =
     (case delete_each sh rm root (map wt_name wts) w of
        (ds, w2) \<Rightarrow> ((cleaned @ cleaned_of ds, errors @ errors_of ds), w2))"
  using assms
proof (induction wts arbitrary: cleaned errors w)
  case Nil
  then show ?case by (simp add: cleaned_of_def errors_of_def)
next
  case (Cons x xs)
  then have r: "wt_isRalph x" and xs: "list_all wt_isRalph xs" by simp_all
  obtain result w1 where d: "delete_by_name sh rm root (wt_name x) w = (result, w1)"
    by (cases "delete_by_name sh rm root (wt_name x) w")
  obtain rs w2 where e: "delete_each sh rm root (map wt_name xs) w1 = (rs, w2)"
    by (cases "delete_each sh rm root (map wt_name xs) w1")
  show ?case
  proof (cases "success result")
    case True
    from Cons.IH [OF xs, of "cleaned @ [wt_name x]" errors w1] r d e True
    show ?thesis by (simp add: deleteWorktree_by_name cleaned_of_def errors_of_def)
  next
    case False
    from Cons.IH [OF xs, of cleaned
        "errors @ [wt_name x @ '': '' @ (case error result of None \<Rightarrow> ''undefined'' | Some msg \<Rightarrow> msg)]" w1]
      r d e False
    show ?thesis by (simp add: deleteWorktree_by_name cleaned_of_def errors_of_def)
  qed
qed

lemma delete_each_names: "map fst (fst (delete_each sh rm root names w)) = names"
proof (induction names arbitrary: w)
  case Nil
  then show ?case by simp
next
  case (Cons n ns)
  obtain r w1 where d: "delete_by_name sh rm root n w = (r, w1)"
    by (cases "delete_by_name sh rm root n w")
  obtain rs w2 where e: "delete_each sh rm root ns w1 = (rs, w2)"
    by (cases "delete_each sh rm root ns w1")
  from Cons [of w1] d e show ?case by simp
qed

lemma ralph_names_listed: "map wt_name (parse_worktrees False output) = ralph_names output"
  by (simp add: parse_worktrees_filter ralph_names_def filter_map comp_def)

lemma errors_of_empty: "errors_of ds = [] \<longleftrightarrow> list_all (\<lambda>(n, r). success r) ds"
  by (auto simp: errors_of_def filter_empty_conv list_all_iff)

lemma run_all_create:
  "createWorktree sh root name branch w =
     (case listWorktrees sh root True w of
        (Inl msg, w1) \<Rightarrow> (failure (''Failed to create worktree: '' @ msg), w1)
      | (Inr existing, w1) \<Rightarrow>
          if \<exists>x \<in> set existing. wt_name x = name
          then (failure (''Worktree '' @ name @ '' already exists''), w1)
          else (case run_all sh (create_commands root name branch) w1 of
                  (Inl msg, w') \<Rightarrow> (failure (''Failed to create worktree: '' @ msg), w')
                | (Inr u, w') \<Rightarrow>
                    (succeeded (Created name (root @ ''.worktrees/'' @ name) branch True), w')))"
  by (auto simp: createWorktree_def create_commands_def worktree_path_def WORKTREES_DIR_def
      Let_def split: prod.splits sum.splits)

section \<open>Creating a worktree\<close>

text \<open>
  C7, as amended. When the listing succeeds, \<^const>\<open>createWorktree\<close> fails with
  \<^verbatim>\<open>Worktree <name> already exists\<close> whenever a listed worktree has that name, and then
  runs no command after the listing. It does not look for a branch of that name. When
  no listed worktree has the name, it runs the fetch, then
  \<^verbatim>\<open>git worktree add "<root>.worktrees/<name>" -b "<branch>" main\<close>, then the install in
  that path, stopping at the first command that fails; it succeeds with that path and
  branch when all three succeed, and every failure, the refusal of git to take an
  existing branch among them, is the result \<^verbatim>\<open>Failed to create worktree\<close> with the
  message of the command.
\<close>

theorem createWorktree_checks_name_only:
  assumes "listWorktrees sh root True w = (Inr existing, w1)"
  shows "(name \<in> wt_name ` set existing \<longrightarrow>
            createWorktree sh root name branch w
              = (failure (''Worktree '' @ name @ '' already exists''), w1))
     \<and> (name \<notin> wt_name ` set existing \<longrightarrow>
            createWorktree sh root name branch w
              = (case run_all sh (create_commands root name branch) w1 of
                   (Inl msg, w') \<Rightarrow> (failure (''Failed to create worktree: '' @ msg), w')
                 | (Inr u, w') \<Rightarrow>
                     (succeeded (Created name (root @ ''.worktrees/'' @ name) branch True), w')))"
  using assms by (auto simp: run_all_create)

lemma listWorktrees_two:
  "listWorktrees (recording_shell listing_two ''feature/x'') ''/repo/'' True []
     = (Inr existing_two, [''git worktree list --porcelain''])"
  by code_simp

lemma createWorktree_taken_name:
  "createWorktree (recording_shell listing_two ''feature/x'') ''/repo/'' ''ralph-HOL-1''
       ''feature/two'' []
     = (failure ''Worktree ralph-HOL-1 already exists'', [''git worktree list --porcelain''])"
  by code_simp

lemma createWorktree_free_name:
  "createWorktree (recording_shell listing_two ''feature/x'') ''/repo/'' ''ralph-HOL-2''
       ''feature/two'' []
     = (succeeded (Created ''ralph-HOL-2'' ''/repo/.worktrees/ralph-HOL-2'' ''feature/two'' True),
        [''git worktree list --porcelain'', ''git fetch origin main:main || true'',
         add_command ''/repo/.worktrees/ralph-HOL-2'' ''feature/two'', ''bun install''])"
  by code_simp

theorem createWorktree_checks_name_only_witness:
  "listWorktrees (recording_shell listing_two ''feature/x'') ''/repo/'' True []
     = (Inr existing_two, [''git worktree list --porcelain''])
   \<and> ''ralph-HOL-1'' \<in> wt_name ` set existing_two
   \<and> createWorktree (recording_shell listing_two ''feature/x'') ''/repo/'' ''ralph-HOL-1''
         ''feature/two'' []
       = (failure (''Worktree '' @ ''ralph-HOL-1'' @ '' already exists''),
          [''git worktree list --porcelain''])
   \<and> ''ralph-HOL-2'' \<notin> wt_name ` set existing_two
   \<and> createWorktree (recording_shell listing_two ''feature/x'') ''/repo/'' ''ralph-HOL-2''
         ''feature/two'' []
       = (succeeded (Created ''ralph-HOL-2'' ''/repo/.worktrees/ralph-HOL-2'' ''feature/two'' True),
          [''git worktree list --porcelain'', ''git fetch origin main:main || true'',
           add_command ''/repo/.worktrees/ralph-HOL-2'' ''feature/two'', ''bun install''])"
proof -
  have a: "''ralph-HOL-1'' \<in> wt_name ` set existing_two"
    by (simp add: existing_two_def)
  have b: "''ralph-HOL-2'' \<notin> wt_name ` set existing_two"
    by (simp add: existing_two_def)
  have "''ralph-HOL-1'' \<in> wt_name ` set existing_two \<longrightarrow>
      createWorktree (recording_shell listing_two ''feature/x'') ''/repo/'' ''ralph-HOL-1''
         ''feature/two'' []
       = (failure (''Worktree '' @ ''ralph-HOL-1'' @ '' already exists''),
          [''git worktree list --porcelain''])"
    using createWorktree_checks_name_only
      [OF listWorktrees_two, of "''ralph-HOL-1''" "''feature/two''"]
    by (rule conjunct1)
  from this a
  have c: "createWorktree (recording_shell listing_two ''feature/x'') ''/repo/'' ''ralph-HOL-1''
         ''feature/two'' []
       = (failure (''Worktree '' @ ''ralph-HOL-1'' @ '' already exists''),
          [''git worktree list --porcelain''])"
    by (rule mp)
  from listWorktrees_two a c b createWorktree_free_name show ?thesis by (intro conjI)
qed

theorem createWorktree_existing_branch_counterexample:
  "createWorktree (recording_shell listing_two ''feature/x'') ''/repo/'' ''ralph-HOL-2''
       ''feature/x'' []
     = (failure (''Failed to create worktree: Command failed: ''
           @ add_command ''/repo/.worktrees/ralph-HOL-2'' ''feature/x'' @ [nl]
           @ ''fatal: a branch named '' @ [squote] @ ''feature/x'' @ [squote]
           @ '' already exists''),
        [''git worktree list --porcelain'', ''git fetch origin main:main || true'',
         add_command ''/repo/.worktrees/ralph-HOL-2'' ''feature/x''])"
  by code_simp

section \<open>Cleaning up worktrees\<close>

text \<open>
  C9, as amended. When the first listing fails, \<^const>\<open>cleanupWorktrees\<close> throws and deletes
  nothing. Otherwise it deletes by name, once for every listed worktree whose name
  starts with \<^verbatim>\<open>ralph-\<close>, in the order of the listing and each in the world the deletion
  before left; it takes nothing but the shell, the remover and the root, so no status
  of a claim or an issue enters. Each deletion lists again and, when the name is still
  listed, runs \<^verbatim>\<open>git worktree remove "<root>.worktrees/<name>" --force\<close> and the prune
  and then deletes the branch; when the listing or one of the two commands fails it
  removes \<^verbatim>\<open><root>.worktrees/<name>\<close> by hand and prunes, and that counts as deleted. The
  path the listing gave for the worktree is never used. The result reports success
  exactly when every one of these deletions reported success; \<^verbatim>\<open>cleaned\<close> holds the names
  whose deletion reported success, \<^verbatim>\<open>errors\<close> the others with their messages, and \<^verbatim>\<open>kept\<close>
  is empty. The world afterwards is the world these commands leave.
\<close>

theorem cleanupWorktrees_deletes_by_name:
  "cleanupWorktrees sh rm root w =
     (case run sh ''git worktree list --porcelain'' root w of
        (Inl msg, w1) \<Rightarrow> (Inl msg, w1)
      | (Inr output, w1) \<Rightarrow>
          (case delete_each sh rm root (ralph_names output) w1 of
             (ds, w2) \<Rightarrow>
               (Inr \<lparr>success = list_all (\<lambda>(n, r). success r) ds,
                     data = Some (Cleaned (cleaned_of ds) [] (errors_of ds)), error = None\<rparr>,
                w2)))
   \<and> map fst (fst (delete_each sh rm root names w)) = names"
proof -
  obtain r w1 where l: "run sh ''git worktree list --porcelain'' root w = (r, w1)"
    by (cases "run sh ''git worktree list --porcelain'' root w")
  have "cleanupWorktrees sh rm root w =
     (case run sh ''git worktree list --porcelain'' root w of
        (Inl msg, w1) \<Rightarrow> (Inl msg, w1)
      | (Inr output, w1) \<Rightarrow>
          (case delete_each sh rm root (ralph_names output) w1 of
             (ds, w2) \<Rightarrow>
               (Inr \<lparr>success = list_all (\<lambda>(n, r). success r) ds,
                     data = Some (Cleaned (cleaned_of ds) [] (errors_of ds)), error = None\<rparr>,
                w2)))"
  proof (cases r)
    case (Inl msg)
    with l show ?thesis by (simp add: cleanupWorktrees_def listWorktrees_def)
  next
    case (Inr out)
    let ?wts = "parse_worktrees False out"
    have a: "list_all wt_isRalph ?wts"
      by (auto simp: list_all_iff parse_worktrees_filter dest: parse_worktrees_ralph)
    obtain ds w2 where e: "delete_each sh rm root (ralph_names out) w1 = (ds, w2)"
      by (cases "delete_each sh rm root (ralph_names out) w1")
    from cleanup_loop_each [OF a, of sh rm root "[]" "[]" w1] e
    have c: "cleanup_loop sh rm root ?wts [] [] w1 = ((cleaned_of ds, errors_of ds), w2)"
      by (simp add: ralph_names_listed)
    from l Inr e c show ?thesis
      by (simp add: cleanupWorktrees_def listWorktrees_def errors_of_empty)
  qed
  moreover have "map fst (fst (delete_each sh rm root names w)) = names"
    by (rule delete_each_names)
  ultimately show ?thesis by (rule conjI)
qed

lemma cleanup_managed:
  "cleanupWorktrees (git_shell listing_two) rm_ok ''/repo/'' []
     = (Inr \<lparr>success = True, data = Some (Cleaned [''ralph-HOL-1''] [] []), error = None\<rparr>,
        [''git worktree list --porcelain'', ''git worktree list --porcelain'',
         remove_command ''/repo/.worktrees/ralph-HOL-1'', ''git worktree prune'',
         branch_command ''feature/one''])"
  by code_simp

lemma delete_each_managed:
  "delete_each (git_shell listing_two) rm_ok ''/repo/'' [''ralph-HOL-1'']
       [''git worktree list --porcelain'']
     = ([(''ralph-HOL-1'', succeeded (Deleted ''ralph-HOL-1'' True False))],
        [''git worktree list --porcelain'', ''git worktree list --porcelain'',
         remove_command ''/repo/.worktrees/ralph-HOL-1'', ''git worktree prune'',
         branch_command ''feature/one''])"
  by code_simp

theorem cleanupWorktrees_deletes_by_name_witness:
  "ralph_names (trim listing_two) = [''ralph-HOL-1'']
   \<and> delete_each (git_shell listing_two) rm_ok ''/repo/'' [''ralph-HOL-1'']
         [''git worktree list --porcelain'']
       = ([(''ralph-HOL-1'', succeeded (Deleted ''ralph-HOL-1'' True False))],
          [''git worktree list --porcelain'', ''git worktree list --porcelain'',
           remove_command ''/repo/.worktrees/ralph-HOL-1'', ''git worktree prune'',
           branch_command ''feature/one''])
   \<and> cleanupWorktrees (git_shell listing_two) rm_ok ''/repo/'' []
       = (Inr \<lparr>success = True, data = Some (Cleaned [''ralph-HOL-1''] [] []), error = None\<rparr>,
          [''git worktree list --porcelain'', ''git worktree list --porcelain'',
           remove_command ''/repo/.worktrees/ralph-HOL-1'', ''git worktree prune'',
           branch_command ''feature/one''])"
proof -
  have n: "ralph_names (trim listing_two) = [''ralph-HOL-1'']" by code_simp
  have l: "run (git_shell listing_two) ''git worktree list --porcelain'' ''/repo/'' []
      = (Inr (trim listing_two), [''git worktree list --porcelain''])"
    by code_simp
  have s: "list_all (\<lambda>(n, r). success r)
      [(''ralph-HOL-1'', succeeded (Deleted ''ralph-HOL-1'' True False))]"
    "cleaned_of [(''ralph-HOL-1'', succeeded (Deleted ''ralph-HOL-1'' True False))]
      = [''ralph-HOL-1'']"
    "errors_of [(''ralph-HOL-1'', succeeded (Deleted ''ralph-HOL-1'' True False))] = []"
    by (simp_all add: succeeded_def cleaned_of_def errors_of_def)
  from cleanupWorktrees_deletes_by_name [of "git_shell listing_two" rm_ok "''/repo/''" "[]"]
  have "cleanupWorktrees (git_shell listing_two) rm_ok ''/repo/'' [] =
     (case run (git_shell listing_two) ''git worktree list --porcelain'' ''/repo/'' [] of
        (Inl msg, w1) \<Rightarrow> (Inl msg, w1)
      | (Inr output, w1) \<Rightarrow>
          (case delete_each (git_shell listing_two) rm_ok ''/repo/'' (ralph_names output) w1 of
             (ds, w2) \<Rightarrow>
               (Inr \<lparr>success = list_all (\<lambda>(n, r). success r) ds,
                     data = Some (Cleaned (cleaned_of ds) [] (errors_of ds)), error = None\<rparr>,
                w2)))"
    by (rule conjunct1)
  then have c: "cleanupWorktrees (git_shell listing_two) rm_ok ''/repo/'' []
       = (Inr \<lparr>success = True, data = Some (Cleaned [''ralph-HOL-1''] [] []), error = None\<rparr>,
          [''git worktree list --porcelain'', ''git worktree list --porcelain'',
           remove_command ''/repo/.worktrees/ralph-HOL-1'', ''git worktree prune'',
           branch_command ''feature/one''])"
    by (simp only: l n delete_each_managed s sum.case prod.case)
  from n delete_each_managed c show ?thesis by (intro conjI)
qed

theorem cleanupWorktrees_elsewhere_counterexample:
  "map wt_path (parse_worktrees False (trim listing_elsewhere)) = [''/elsewhere/ralph-X'']
   \<and> cleanupWorktrees (git_shell listing_elsewhere) rm_ok ''/repo/'' []
     = (Inr \<lparr>success = True, data = Some (Cleaned [''ralph-X''] [] []), error = None\<rparr>,
        [''git worktree list --porcelain'', ''git worktree list --porcelain'',
         remove_command ''/repo/.worktrees/ralph-X'', ''rm -rf /repo/.worktrees/ralph-X'',
         ''git worktree prune''])
   \<and> git_shell listing_elsewhere (remove_command ''/repo/.worktrees/ralph-X'') ''/repo/'' []
     = (Inl (''Command failed: '' @ remove_command ''/repo/.worktrees/ralph-X'' @ [nl]
             @ ''fatal: '' @ [squote] @ ''/repo/.worktrees/ralph-X'' @ [squote]
             @ '' is not a working tree''),
        [remove_command ''/repo/.worktrees/ralph-X''])"
  by code_simp

section \<open>Facts about writing front matter and reading it back\<close>

lemma trim_decompose:
  "\<exists>pre post. s = pre @ trim s @ post \<and> (\<forall>c \<in> set pre. is_ws c) \<and> (\<forall>c \<in> set post. is_ws c)"
proof -
  let ?a = "dropWhile is_ws s"
  have 1: "s = takeWhile is_ws s @ ?a" by simp
  have 2: "rev ?a = takeWhile is_ws (rev ?a) @ dropWhile is_ws (rev ?a)" by simp
  have "?a = rev (rev ?a)" by simp
  also have "\<dots> = rev (dropWhile is_ws (rev ?a)) @ rev (takeWhile is_ws (rev ?a))"
    by (subst 2) (simp only: rev_append)
  finally have 3: "?a = trim s @ rev (takeWhile is_ws (rev ?a))" by (simp add: trim_def)
  have "s = takeWhile is_ws s @ trim s @ rev (takeWhile is_ws (rev ?a))"
    using 1 3 by metis
  moreover have "\<forall>c \<in> set (takeWhile is_ws s). is_ws c"
    by (auto dest: set_takeWhileD)
  moreover have "\<forall>c \<in> set (rev (takeWhile is_ws (rev ?a))). is_ws c"
    by (auto dest: set_takeWhileD)
  ultimately show ?thesis by blast
qed

lemma set_trim: "set (trim s) \<subseteq> set s"
proof -
  from trim_decompose [of s] obtain pre post where "s = pre @ trim s @ post" by blast
  then have "set s = set pre \<union> set (trim s) \<union> set post" by (metis set_append Un_assoc)
  then show ?thesis by blast
qed

lemma trim_id:
  assumes "s = [] \<or> (\<not> is_ws (hd s) \<and> \<not> is_ws (last s))"
  shows "trim s = s"
proof (cases "s = []")
  case True
  then show ?thesis by (simp add: trim_def)
next
  case False
  with assms have h: "\<not> is_ws (hd s)" and l: "\<not> is_ws (last s)" by simp_all
  from False h have a: "dropWhile is_ws s = s" by (cases s) simp_all
  from False l have "dropWhile is_ws (rev s) = rev s"
    by (cases "rev s") (simp_all add: last_rev [symmetric] hd_rev)
  with a show ?thesis by (simp add: trim_def)
qed

lemma trim_ends:
  "trim s = [] \<or> (\<not> is_ws (hd (trim s)) \<and> \<not> is_ws (last (trim s)))"
proof (cases "trim s = []")
  case True
  then show ?thesis ..
next
  case False
  let ?a = "dropWhile is_ws s"
  let ?b = "dropWhile is_ws (rev ?a)"
  have t: "trim s = rev ?b" by (simp add: trim_def)
  with False have b: "?b \<noteq> []" by simp
  then have "\<not> is_ws (hd ?b)" by (metis hd_dropWhile)
  with b t have l: "\<not> is_ws (last (trim s))" by (simp add: last_rev)
  have a: "?a \<noteq> []"
  proof
    assume e: "?a = []"
    have "?b = dropWhile is_ws (rev [])" by (simp only: e)
    then have "?b = []" by simp
    with b show False ..
  qed
  then have ha: "\<not> is_ws (hd ?a)" by (metis hd_dropWhile)
  have "rev ?a = takeWhile is_ws (rev ?a) @ ?b" by simp
  then have "?a = rev ?b @ rev (takeWhile is_ws (rev ?a))"
    by (metis rev_append rev_rev_ident)
  with b have "hd ?a = hd (rev ?b)" by (metis hd_append2 rev_is_Nil_conv)
  with ha t have "\<not> is_ws (hd (trim s))" by simp
  with l show ?thesis by simp
qed

lemma trim_trim: "trim (trim s) = trim s"
  by (rule trim_id) (rule trim_ends)

lemma trim_ws_prefix:
  assumes "\<forall>c \<in> set pre. is_ws c"
  shows "trim (pre @ s) = trim s"
proof -
  from assms have "dropWhile is_ws (pre @ s) = dropWhile is_ws s"
    by (induction pre) simp_all
  then show ?thesis by (simp add: trim_def)
qed

lemma set_slice1: "set (slice1 s) \<subseteq> set s"
proof -
  have "set (butlast (tl s)) \<subseteq> set (tl s)" by (meson in_set_butlastD subsetI)
  moreover have "set (tl s) \<subseteq> set s" by (cases s) auto
  ultimately show ?thesis by (auto simp: slice1_def)
qed

lemma set_strip_quotes: "set (strip_quotes s) \<subseteq> set s"
proof -
  let ?s1 = "case s of [] \<Rightarrow> [] | c # cs \<Rightarrow> if is_quote c then cs else s"
  have a: "set ?s1 \<subseteq> set s" by (cases s) auto
  have "set (butlast ?s1) \<subseteq> set ?s1" by (meson in_set_butlastD subsetI)
  with a show ?thesis by (auto simp: strip_quotes_def Let_def)
qed

lemma set_split_char: "l \<in> set (split_char c s) \<Longrightarrow> set l \<subseteq> set s"
proof (induction s arbitrary: l)
  case Nil
  then show ?case by simp
next
  case (Cons x xs)
  show ?case
  proof (cases "x = c")
    case True
    with Cons show ?thesis by auto
  next
    case False
    obtain h t where s: "split_char c xs = h # t"
      by (cases "split_char c xs") (cases xs, auto split: if_splits list.splits)
    with False Cons.prems have "l = x # h \<or> l \<in> set t" by simp
    then show ?thesis
    proof
      assume "l = x # h"
      moreover from Cons.IH [of h] s have "set h \<subseteq> set xs" by simp
      ultimately show ?thesis by auto
    next
      assume "l \<in> set t"
      with Cons.IH [of l] s show ?thesis by auto
    qed
  qed
qed

lemma split_char_nonempty: "split_char c s \<noteq> []"
  by (cases s) (auto split: list.splits)

lemma split_char_no_sep: "l \<in> set (split_char c s) \<Longrightarrow> c \<notin> set l"
proof (induction s arbitrary: l)
  case Nil
  then show ?case by simp
next
  case (Cons x xs)
  show ?case
  proof (cases "x = c")
    case True
    with Cons show ?thesis by auto
  next
    case False
    obtain h t where s: "split_char c xs = h # t"
      using split_char_nonempty [of c xs] by (cases "split_char c xs") auto
    with False Cons.prems have "l = x # h \<or> l \<in> set t" by simp
    then show ?thesis
    proof
      assume "l = x # h"
      moreover from Cons.IH [of h] s have "c \<notin> set h" by simp
      ultimately show ?thesis using False by auto
    next
      assume "l \<in> set t"
      with Cons.IH [of l] s show ?thesis by auto
    qed
  qed
qed

lemma set_assign: "set (assign fm k v) \<subseteq> insert (k, v) (set fm)"
  by (induction fm) (auto split: if_splits)

lemma map_fst_assign:
  "map fst (assign fm k v) = (if k \<in> set (map fst fm) then map fst fm else map fst fm @ [k])"
proof (induction fm)
  case Nil
  then show ?case by simp
next
  case (Cons a fm)
  obtain k' v' where a: "a = (k', v')" by (cases a)
  show ?case
  proof (cases "k' = k")
    case True
    with a show ?thesis by simp
  next
    case False
    show ?thesis
    proof (cases "k \<in> set (map fst fm)")
      case True
      with Cons.IH a False show ?thesis by simp
    next
      case n: False
      with Cons.IH a False show ?thesis by simp
    qed
  qed
qed

lemma keys_assign: "fst ` set (assign fm k v) = insert k (fst ` set fm)"
proof -
  have "set (map fst (assign fm k v)) = insert k (set (map fst fm))"
    by (auto simp: map_fst_assign)
  then show ?thesis by simp
qed

lemma distinct_assign: "distinct (map fst fm) \<Longrightarrow> distinct (map fst (assign fm k v))"
  by (simp add: map_fst_assign)

lemma fm_ok_assign:
  assumes "fm_ok fm" and "key_ok k" and "val_ok v"
  shows "fm_ok (assign fm k v)"
proof -
  from assms(1) have d: "distinct (map fst (assign fm k v))"
    by (simp add: fm_ok_def distinct_assign)
  have "\<forall>(k', v') \<in> set (assign fm k v). key_ok k' \<and> val_ok v'"
    using set_assign [of fm k v] assms by (auto simp: fm_ok_def)
  with d show ?thesis by (simp add: fm_ok_def)
qed

lemma fm_ok_set_prop:
  assumes "fm_ok fm" and "key_ok k" and "val_ok v"
  shows "fm_ok (set_prop fm k v)"
  using assms by (simp add: set_prop_def fm_ok_assign)

lemma parse_value_ok:
  assumes "nl \<notin> set v"
  shows "val_ok (parse_value v)"
proof -
  have a: "nl \<notin> set (slice1 v)" using assms set_slice1 [of v] by auto
  have "\<forall>s \<in> set (split_char CHR '','' (slice1 v)). nl \<notin> set (strip_quotes (trim s))"
  proof
    fix s assume "s \<in> set (split_char CHR '','' (slice1 v))"
    from set_split_char [OF this] a have "nl \<notin> set s" by auto
    with set_trim [of s] have "nl \<notin> set (trim s)" by auto
    with set_strip_quotes [of "trim s"] show "nl \<notin> set (strip_quotes (trim s))" by auto
  qed
  with a assms show ?thesis by (simp add: parse_value_def)
qed

lemma parse_line_ok:
  assumes "fm_ok fm" and "nl \<notin> set line"
  shows "fm_ok (parse_line fm line)"
proof (cases "CHR '':'' \<in> set line")
  case False
  with assms(1) show ?thesis by (simp add: parse_line_def)
next
  case True
  let ?k0 = "takeWhile (\<lambda>c. c \<noteq> CHR '':'') line"
  let ?v0 = "drop 1 (dropWhile (\<lambda>c. c \<noteq> CHR '':'') line)"
  have "set ?k0 \<subseteq> set line" by (auto dest: set_takeWhileD)
  with assms(2) set_trim [of ?k0] have n: "nl \<notin> set (trim ?k0)" by auto
  have "CHR '':'' \<notin> set ?k0" by (auto dest: set_takeWhileD)
  with set_trim [of ?k0] have c: "CHR '':'' \<notin> set (trim ?k0)" by auto
  from n c have k: "key_ok (trim ?k0)" by (simp add: key_ok_def trim_trim)
  have "set ?v0 \<subseteq> set line"
    by (meson set_drop_subset set_dropWhileD subsetI subset_trans)
  with assms(2) set_trim [of ?v0] have "nl \<notin> set (trim ?v0)" by auto
  then have "val_ok (parse_value (trim ?v0))" by (rule parse_value_ok)
  with assms(1) k True show ?thesis
    by (simp add: parse_line_def Let_def fm_ok_set_prop)
qed

lemma foldl_parse_line_ok:
  assumes "fm_ok fm" and "\<forall>l \<in> set ls. nl \<notin> set l"
  shows "fm_ok (foldl parse_line fm ls)"
  using assms by (induction ls arbitrary: fm) (simp_all add: parse_line_ok)

lemma parse_yaml_ok: "fm_ok (parse_yaml y)"
  unfolding parse_yaml_def
  by (rule foldl_parse_line_ok) (auto simp: fm_ok_def dest: split_char_no_sep)

lemma not_ws_letter:
  "\<not> is_ws CHR ''s''" "\<not> is_ws CHR ''p''" "\<not> is_ws CHR ''y''" "\<not> is_ws CHR ''b''"
  "\<not> is_ws CHR ''t''" "\<not> is_ws CHR ''n''" "\<not> is_ws CHR ''d''"
  by (simp_all add: is_ws_def)

lemma key_ok_words:
  "key_ok ''status''" "key_ok ''priority''" "key_ok ''blocked_at''" "key_ok ''blocked_reason''"
  by (simp_all add: key_ok_def nl_def trim_id not_ws_letter)

lemma default_frontmatter_ok: "fm_ok default_frontmatter"
  by (simp add: fm_ok_def default_frontmatter_def key_ok_words nl_def)

lemma parseFrontmatter_ok: "fm_ok (fst (parseFrontmatter x))"
  by (simp add: parseFrontmatter_def default_frontmatter_ok parse_yaml_ok
      split: option.splits prod.splits)

lemma serialize_entry_payload: "serialize_entry (k, v) = k @ '': '' @ payload v"
  by (cases v) simp_all

lemma set_join: "set (join sep ls) \<subseteq> set sep \<union> \<Union> (set ` set ls)"
  by (induction sep ls rule: join.induct) auto

lemma payload_no_nl:
  assumes "val_ok v"
  shows "nl \<notin> set (payload v)"
proof (cases v)
  case (Str s)
  with assms show ?thesis by (auto simp: nl_def dquote_def)
next
  case (Arr vs)
  have "set (join '', '' (map (\<lambda>v. [dquote] @ v @ [dquote]) vs))
      \<subseteq> set '', '' \<union> \<Union> (set ` set (map (\<lambda>v. [dquote] @ v @ [dquote]) vs))"
    by (rule set_join)
  moreover have "nl \<notin> \<Union> (set ` set (map (\<lambda>v. [dquote] @ v @ [dquote]) vs))"
    using assms Arr by (auto simp: nl_def dquote_def)
  moreover have "nl \<notin> set '', ''" by (simp add: nl_def)
  ultimately have "nl \<notin> set (join '', '' (map (\<lambda>v. [dquote] @ v @ [dquote]) vs))" by blast
  with Arr show ?thesis by (simp add: nl_def)
qed

lemma line_no_nl:
  assumes "key_ok k" and "val_ok v"
  shows "nl \<notin> set (serialize_entry (k, v))"
  using assms payload_no_nl [OF assms(2)]
  by (simp add: serialize_entry_payload key_ok_def nl_def)

lemma line_has_colon: "CHR '':'' \<in> set (serialize_entry (k, v))"
  by (simp add: serialize_entry_payload)

lemma is_ws_space: "is_ws CHR '' ''"
  by (simp add: is_ws_def)

lemma parse_line_serialized:
  assumes "key_ok k"
  shows "parse_line acc (serialize_entry (k, v))
     = (if trim (payload v) = [] then acc
        else set_prop acc k (parse_value (trim (payload v))))"
proof -
  let ?line = "k @ CHR '':'' # CHR '' '' # payload v"
  have l: "serialize_entry (k, v) = ?line" by (simp add: serialize_entry_payload)
  from assms have nc: "\<forall>x \<in> set k. x \<noteq> CHR '':''" by (auto simp: key_ok_def)
  then have t: "takeWhile (\<lambda>c. c \<noteq> CHR '':'') ?line = k"
    by (simp add: takeWhile_append2)
  from nc have d: "dropWhile (\<lambda>c. c \<noteq> CHR '':'') ?line = CHR '':'' # CHR '' '' # payload v"
    by (simp add: dropWhile_append2)
  have "trim (CHR '' '' # payload v) = trim ([CHR '' ''] @ payload v)" by simp
  also have "\<dots> = trim (payload v)"
    by (rule trim_ws_prefix) (simp add: is_ws_space)
  finally have tv: "trim (CHR '' '' # payload v) = trim (payload v)" .
  from assms have tk: "trim k = k" by (simp add: key_ok_def)
  have c: "CHR '':'' \<in> set ?line" by simp
  show ?thesis
    unfolding l parse_line_def
    by (simp only: c t d tk tv Let_def not_True_eq_False if_False drop_Suc_Cons drop_0
        One_nat_def)
qed

lemma split_char_plain: "c \<notin> set l \<Longrightarrow> split_char c l = [l]"
  by (induction l) auto

lemma split_char_append: "c \<notin> set l \<Longrightarrow> split_char c (l @ c # r) = l # split_char c r"
  by (induction l) auto

lemma split_char_join:
  assumes "ls \<noteq> []" and "\<forall>l \<in> set ls. c \<notin> set l"
  shows "split_char c (join [c] ls) = ls"
  using assms
proof (induction "[c]" ls rule: join.induct)
  case 1
  then show ?case by simp
next
  case (2 x)
  then show ?case by (simp add: split_char_plain)
next
  case (3 x y ys)
  then have "split_char c (join [c] (y # ys)) = y # ys" by simp
  moreover from 3 have "c \<notin> set x" by simp
  ultimately show ?case by (simp add: split_char_append)
qed

lemma split_first_skip:
  assumes "c \<notin> set x"
  shows "split_first (c # s) (x @ r) = map_option (\<lambda>(a, b). (x @ a, b)) (split_first (c # s) r)"
  using assms
proof (induction x)
  case Nil
  show ?case by (cases "split_first (c # s) r") auto
next
  case (Cons a x)
  then have "a \<noteq> c" and "c \<notin> set x" by auto
  with Cons.IH show ?case
    by (cases "split_first (c # s) r") (auto simp: prefix_def)
qed

lemma split_first_here: "split_first sep (sep @ r) = Some ([], r)"
proof (cases "sep @ r")
  case Nil
  then show ?thesis by simp
next
  case (Cons a l)
  have "prefix sep (a # l)" using Cons by (metis prefixI)
  moreover have "drop (length sep) (a # l) = r" using Cons by (metis append_eq_conv_conj)
  ultimately show ?thesis using Cons by simp
qed

lemma prefix_line_eq:
  assumes "c \<notin> set y" and "c \<notin> set w" and "prefix (w @ [c]) (y @ c # z)"
  shows "y = w"
  using assms
proof (induction w arbitrary: y)
  case Nil
  then show ?case by (cases y) (auto simp: prefix_def)
next
  case (Cons a w)
  show ?case
  proof (cases y)
    case Nil
    with Cons.prems show ?thesis by (auto simp: prefix_def)
  next
    case (Cons b y')
    with Cons.prems Cons.IH [of y'] show ?thesis by auto
  qed
qed

lemma join_head:
  "ls \<noteq> [] \<Longrightarrow> \<exists>z. join [c] ls @ c # r = hd ls @ c # z"
  by (induction "[c]" ls rule: join.induct) auto

lemma split_first_joined:
  assumes "ls \<noteq> []" and "\<forall>l \<in> set ls. c \<notin> set l \<and> l \<noteq> w" and "c \<notin> set w"
  shows "split_first (c # w @ [c]) (join [c] ls @ (c # w @ [c]) @ body) = Some (join [c] ls, body)"
  using assms(1,2)
proof (induction "[c]" ls rule: join.induct)
  case 1
  then show ?case by simp
next
  case (2 x)
  then have "c \<notin> set x" by simp
  from split_first_skip [OF this, of "w @ [c]" "(c # w @ [c]) @ body"]
  show ?case by (simp add: split_first_here)
next
  case (3 x y ys)
  let ?sep = "c # w @ [c]"
  let ?rest = "join [c] (y # ys) @ ?sep @ body"
  from 3 have x: "c \<notin> set x" and y: "c \<notin> set y" "y \<noteq> w" by simp_all
  from 3 have ih: "split_first ?sep ?rest = Some (join [c] (y # ys), body)" by simp
  from join_head [of "y # ys" c "w @ [c] @ body"] obtain z where
    z: "?rest = y @ c # z" by auto
  have np: "\<not> prefix ?sep (c # ?rest)"
  proof
    assume "prefix ?sep (c # ?rest)"
    then have "prefix (w @ [c]) ?rest" by simp
    then have "prefix (w @ [c]) (y @ c # z)" unfolding z .
    from prefix_line_eq [OF y(1) assms(3) this] y(2) show False by simp
  qed
  have "split_first ?sep (c # ?rest) = Some (c # join [c] (y # ys), body)"
    using np ih by simp
  with split_first_skip [OF x, of "w @ [c]" "c # ?rest"]
  show ?case by simp
qed

lemma map_of_set_prop_other:
  "k \<noteq> k0 \<Longrightarrow> map_of (set_prop acc k v) k0 = map_of acc k0"
  by (simp add: set_prop_def map_of_assign)

lemma foldl_lookup_keep:
  assumes "\<forall>l \<in> set ls. \<forall>acc. map_of (f acc l) k = Some v \<or> map_of (f acc l) k = map_of acc k"
    and "map_of acc k = Some v"
  shows "map_of (foldl f acc ls) k = Some v"
  using assms
proof (induction ls arbitrary: acc)
  case Nil
  then show ?case by simp
next
  case (Cons l ls)
  from Cons.prems have "map_of (f acc l) k = Some v" by (metis list.set_intros(1))
  moreover from Cons.prems(1)
  have "\<forall>l \<in> set ls. \<forall>acc. map_of (f acc l) k = Some v \<or> map_of (f acc l) k = map_of acc k"
    by simp
  ultimately show ?case using Cons.IH by simp
qed

lemma foldl_lookup_set:
  assumes "\<forall>l \<in> set ls. \<forall>acc. map_of (f acc l) k = Some v \<or> map_of (f acc l) k = map_of acc k"
    and "l0 \<in> set ls" and "\<forall>acc. map_of (f acc l0) k = Some v"
  shows "map_of (foldl f acc ls) k = Some v"
  using assms
proof (induction ls arbitrary: acc)
  case Nil
  then show ?case by simp
next
  case (Cons l ls)
  from Cons.prems(1)
  have rest: "\<forall>l \<in> set ls. \<forall>acc. map_of (f acc l) k = Some v \<or> map_of (f acc l) k = map_of acc k"
    by simp
  show ?case
  proof (cases "l0 = l")
    case True
    with Cons.prems(3) have "map_of (f acc l) k = Some v" by simp
    from foldl_lookup_keep [OF rest this] show ?thesis by simp
  next
    case False
    with Cons.prems(2) have "l0 \<in> set ls" by simp
    from Cons.IH [OF rest this Cons.prems(3)] show ?thesis by simp
  qed
qed

lemma set_entries: "set (entries fm) = set fm"
  by (auto simp: entries_def)

lemma reparse_rendered:
  assumes "fm_ok fm" and "fm \<noteq> []"
  shows "parseFrontmatter (render fm body)
     = (foldl parse_line [] (map serialize_entry (entries fm)), body)"
proof -
  let ?ls = "map serialize_entry (entries fm)"
  from assms(2) have "set (entries fm) \<noteq> {}" by (simp add: set_entries)
  then have ne: "?ls \<noteq> []" by auto
  have ok: "\<forall>l \<in> set ?ls. nl \<notin> set l \<and> l \<noteq> ''---''"
  proof
    fix l assume "l \<in> set ?ls"
    then obtain k v where kv: "(k, v) \<in> set fm" and l: "l = serialize_entry (k, v)"
      by (auto simp: set_entries)
    from kv assms(1) have "key_ok k" "val_ok v" by (auto simp: fm_ok_def)
    then have "nl \<notin> set l" unfolding l by (rule line_no_nl)
    moreover from line_has_colon [of k v] l have "l \<noteq> ''---''" by auto
    ultimately show "nl \<notin> set l \<and> l \<noteq> ''---''" ..
  qed
  have w: "nl \<notin> set ''---''" by (simp add: nl_def)
  have "match_frontmatter (render fm body)
      = split_first (nl # ''---'' @ [nl]) (join [nl] ?ls @ (nl # ''---'' @ [nl]) @ body)"
    by (simp add: match_frontmatter_def render_def serializeFrontmatter_def)
  also have "\<dots> = Some (join [nl] ?ls, body)"
    using ne ok w by (rule split_first_joined)
  finally have m: "match_frontmatter (render fm body) = Some (join [nl] ?ls, body)" .
  have "split_char nl (join [nl] ?ls) = ?ls"
    using ne ok by (intro split_char_join) auto
  with m show ?thesis by (simp add: parseFrontmatter_def parse_yaml_def)
qed

lemma lookup_reparsed:
  assumes "fm_ok fm" and "map_of fm k0 = Some v0" and "trim (payload v0) \<noteq> []"
    and "k0 \<noteq> ''__proto__''"
  shows "map_of (foldl parse_line [] (map serialize_entry (entries fm))) k0
     = Some (parse_value (trim (payload v0)))"
proof (rule foldl_lookup_set [where ?l0.0 = "serialize_entry (k0, v0)"])
  from assms(1) have d: "distinct (map fst fm)" by (simp add: fm_ok_def)
  from assms(2) have in0: "(k0, v0) \<in> set fm" by (rule map_of_SomeD)
  from in0 assms(1) have k0: "key_ok k0" by (auto simp: fm_ok_def)
  show "serialize_entry (k0, v0) \<in> set (map serialize_entry (entries fm))"
    using in0 by (simp add: set_entries)
  show "\<forall>acc. map_of (parse_line acc (serialize_entry (k0, v0))) k0
      = Some (parse_value (trim (payload v0)))"
    using assms(3,4) by (simp add: parse_line_serialized [OF k0] set_prop_def map_of_assign)
  show "\<forall>l \<in> set (map serialize_entry (entries fm)). \<forall>acc.
      map_of (parse_line acc l) k0 = Some (parse_value (trim (payload v0)))
      \<or> map_of (parse_line acc l) k0 = map_of acc k0"
  proof (intro ballI allI)
    fix l acc assume "l \<in> set (map serialize_entry (entries fm))"
    then obtain k v where kv: "(k, v) \<in> set fm" and l: "l = serialize_entry (k, v)"
      by (auto simp: set_entries)
    from kv assms(1) have k: "key_ok k" by (auto simp: fm_ok_def)
    show "map_of (parse_line acc l) k0 = Some (parse_value (trim (payload v0)))
      \<or> map_of (parse_line acc l) k0 = map_of acc k0"
    proof (cases "k = k0")
      case True
      with kv d assms(2) have "v = v0" by (metis map_of_is_SomeI option.inject)
      with True assms(3,4) show ?thesis
        unfolding l by (simp add: parse_line_serialized [OF k0] set_prop_def map_of_assign)
    next
      case False
      then show ?thesis
        unfolding l by (simp add: parse_line_serialized [OF k] map_of_set_prop_other)
    qed
  qed
qed

lemma not_ws_dquote: "\<not> is_ws dquote"
  by (simp add: is_ws_def dquote_def)

lemma reparse_reason:
  assumes "plain_reason r"
  shows "trim (payload (Str r)) \<noteq> [] \<and> parse_value (trim (payload (Str r))) = Str r"
proof (cases "CHR '' '' \<in> set r")
  case True
  let ?p = "dquote # r @ [dquote]"
  have p: "payload (Str r) = ?p" using True by simp
  have t: "trim ?p = ?p" by (rule trim_id) (simp add: not_ws_dquote)
  have "\<not> startsWith ?p ''[''" by (simp add: startsWith_def dquote_def)
  moreover have "startsWith ?p [dquote]" by (simp add: startsWith_def)
  moreover have "slice1 ?p = r" by (simp add: slice1_def)
  ultimately have "parse_value ?p = Str r" by (simp add: parse_value_def)
  with p t show ?thesis by simp
next
  case False
  with assms have r: "r \<noteq> []" "trim r = r" "\<not> startsWith r ''[''" "\<not> startsWith r [dquote]"
    by (auto simp: plain_reason_def)
  from r False show ?thesis by (simp add: parse_value_def)
qed

lemma reparse_blocked:
  "trim (payload (Str ''blocked'')) \<noteq> []
   \<and> parse_value (trim (payload (Str ''blocked''))) = Str ''blocked''"
proof -
  have p: "payload (Str ''blocked'') = ''blocked''" by simp
  have t: "trim ''blocked'' = ''blocked''" by (rule trim_id) (simp add: not_ws_letter)
  have "parse_value ''blocked'' = Str ''blocked''"
    by (simp add: parse_value_def startsWith_def dquote_def)
  with p t show ?thesis by simp
qed

lemma map_of_writeFile: "map_of (writeFile d f t) = (map_of d)(f \<mapsto> t)"
  by (induction d) auto

lemma map_of_filter_out:
  "\<forall>v. \<not> P (k, v) \<Longrightarrow> map_of (filter P xs) k = None"
  by (induction xs) auto

lemma rename_moves:
  assumes "map_of d old = Some t" and "old \<noteq> new"
  shows "\<exists>d'. rename d old new = Inr d' \<and> map_of d' new = Some t \<and> map_of d' old = None"
proof -
  let ?xs = "filter (\<lambda>(f, t). f \<noteq> old \<and> f \<noteq> new) d"
  have r: "rename d old new = Inr (?xs @ [(new, t)])"
    using assms by (simp add: rename_def)
  have a: "map_of ?xs new = None" by (rule map_of_filter_out) simp
  have b: "map_of ?xs old = None" by (rule map_of_filter_out) simp
  from a have "map_of (?xs @ [(new, t)]) new = Some t" by (simp add: map_add_def)
  moreover from b assms(2) have "map_of (?xs @ [(new, t)]) old = None" by (simp add: map_add_def)
  ultimately show ?thesis using r by blast
qed

lemma match_filename_parts:
  assumes "match_filename fname = Some (num, st, pri, slg)"
  shows "num \<noteq> []" and "\<forall>c \<in> set num. is_digit c"
    and "\<exists>d. pri = [CHR ''p'', d] \<and> (d = CHR ''1'' \<or> d = CHR ''2'' \<or> d = CHR ''3'')"
    and "slg \<noteq> []" and "\<forall>c \<in> set slg. \<not> is_lt c"
  using assms unfolding match_filename_def Let_def
  by (auto split: list.splits if_splits dest: set_takeWhileD in_set_takeD)

lemma match_filename_build:
  assumes "match_filename fname = Some (num, st, pri, slg)"
  shows "match_filename (buildFilename num ''blocked'' pri slg) = Some (num, ''blocked'', pri, slg)"
proof -
  from match_filename_parts [OF assms] obtain d where
    n: "num \<noteq> []" "\<forall>c \<in> set num. is_digit c"
    and p: "pri = [CHR ''p'', d]" "d = CHR ''1'' \<or> d = CHR ''2'' \<or> d = CHR ''3''"
    and s: "slg \<noteq> []" "\<forall>c \<in> set slg. \<not> is_lt c"
    by auto
  let ?r5 = "slg @ ''.md''"
  let ?r3 = "CHR ''-'' # CHR ''p'' # d # CHR ''-'' # ?r5"
  let ?r2 = "''blocked'' @ ?r3"
  have b: "buildFilename num ''blocked'' pri slg = num @ CHR ''-'' # ?r2"
    by (simp add: buildFilename_def p)
  have t1: "takeWhile is_digit (num @ CHR ''-'' # ?r2) = num"
    using n(2) by (simp add: takeWhile_append2 is_digit_def)
  have d1: "dropWhile is_digit (num @ CHR ''-'' # ?r2) = CHR ''-'' # ?r2"
    using n(2) by (simp add: dropWhile_append2 is_digit_def)
  have t2: "takeWhile is_word ?r2 = ''blocked''"
    by (simp add: is_word_def)
  have d2: "dropWhile is_word ?r2 = ?r3"
    by (simp add: is_word_def)
  have c: "suffix ''.md'' ?r5" "3 < length ?r5" "\<forall>c \<in> set ?r5. \<not> is_lt c"
    "take (length ?r5 - 3) ?r5 = slg"
    using s by (simp_all add: suffix_def is_lt_def)
  show ?thesis
    unfolding b match_filename_def Let_def t1 d1 list.case t2 d2
    using n(1) p c by simp
qed

lemma blocked_name_differs:
  assumes "match_filename fname = Some (num, st, pri, slg)"
  shows "parseFilename fname = (num, st, pri, slg)"
    and "parseFilename (buildFilename num ''blocked'' pri slg) = (num, ''blocked'', pri, slg)"
  using assms match_filename_build [OF assms] by (simp_all add: parseFilename_def)

lemma blocked_frontmatter_reparsed:
  assumes "plain_reason reason" and "nl \<notin> set now"
    and "fm3 = assign (assign (assign (fst (parseFrontmatter x)) ''status'' (Str ''blocked''))
                 ''blocked_at'' (Str now)) ''blocked_reason'' (Str reason)"
  shows "\<exists>fm'. parseFrontmatter (render fm3 body) = (fm', body)
     \<and> map_of fm' ''status'' = Some (Str ''blocked'')
     \<and> map_of fm' ''blocked_reason'' = Some (Str reason)"
proof -
  from assms(1) have r: "val_ok (Str reason)" by (simp add: plain_reason_def)
  from assms(2) have n: "val_ok (Str now)" by simp
  have b: "val_ok (Str ''blocked'')" by (simp add: nl_def)
  have ok: "fm_ok fm3"
    unfolding assms(3)
    by (intro fm_ok_assign parseFrontmatter_ok key_ok_words r n b)
  have ne: "fm3 \<noteq> []"
    unfolding assms(3) by (metis map_of_assign fun_upd_same map_of.simps(1) option.distinct(1))
  have s: "map_of fm3 ''status'' = Some (Str ''blocked'')"
    unfolding assms(3) by (simp add: map_of_assign)
  have br: "map_of fm3 ''blocked_reason'' = Some (Str reason)"
    unfolding assms(3) by (simp add: map_of_assign)
  let ?fm' = "foldl parse_line [] (map serialize_entry (entries fm3))"
  have p: "parseFrontmatter (render fm3 body) = (?fm', body)"
    using ok ne by (rule reparse_rendered)
  from reparse_blocked have "map_of ?fm' ''status'' = Some (Str ''blocked'')"
    using lookup_reparsed [OF ok s] by simp
  moreover from reparse_reason [OF assms(1)]
  have "map_of ?fm' ''blocked_reason'' = Some (Str reason)"
    using lookup_reparsed [OF ok br] by simp
  ultimately show ?thesis using p by blast
qed

lemma after_write_rename:
  assumes "map_of d fname = Some x"
  shows "\<exists>d'. apply_ops d (WriteOp fname y # (if fname \<noteq> new then [RenameOp fname new] else []))
        = Inr d'
     \<and> map_of d' new = Some y \<and> (fname \<noteq> new \<longrightarrow> map_of d' fname = None)"
proof (cases "fname = new")
  case True
  then show ?thesis by (simp add: map_of_writeFile)
next
  case False
  have "map_of (writeFile d fname y) fname = Some y" by (simp add: map_of_writeFile)
  from rename_moves [OF this False] False show ?thesis by auto
qed

section \<open>Blocking a todo and getting it afterwards\<close>

text \<open>
  What \<^const>\<open>blockTodo\<close> does for every reason and every time stamp, on an existing file
  with a well-formed name: it first writes the new text to the old name and then, if
  the name changes, renames the file; the new name is
  \<^verbatim>\<open>{id}-blocked-{priority}-{slug}.md\<close> with the id, priority and slug of the old name;
  afterwards the new name holds the written text, the old name is gone, and \<^verbatim>\<open>get\<close> on
  the new name returns the item with that name, id and slug and the front matter read
  from the written text. When the reason is one the serialiser carries (one line, and
  either with a space, so that it is written in quotes, or a bare word without white
  space at its ends and without a leading bracket or quote) and the time stamp is one
  line, that front matter has the status \<^verbatim>\<open>blocked\<close> and the given reason.
\<close>

lemma blockTodo_writes_then_renames:
  assumes "map_of d fname = Some x"
    and "match_filename fname = Some (num, st, pri, slg)"
  shows "\<exists>newText newName d' t.
      blockTodo now d fname reason
        = Inr (WriteOp fname newText
               # (if fname \<noteq> newName then [RenameOp fname newName] else []), newName)
    \<and> newName = num @ ''-blocked-'' @ pri @ ''-'' @ slg @ ''.md''
    \<and> parseFilename newName = (num, ''blocked'', pri, slg)
    \<and> after_block now d fname reason = Inr d'
    \<and> map_of d' newName = Some newText
    \<and> (fname \<noteq> newName \<longrightarrow> map_of d' fname = None)
    \<and> get_cmd d' newName = Inr t
    \<and> block_then_get now d fname reason = Inr t
    \<and> filename t = newName \<and> number t = num \<and> slug t = slg
    \<and> frontmatter t = fst (parseFrontmatter newText)
    \<and> (plain_reason reason \<and> nl \<notin> set now \<longrightarrow>
          map_of (frontmatter t) ''status'' = Some (Str ''blocked'')
          \<and> map_of (frontmatter t) ''blocked_reason'' = Some (Str reason))"
proof -
  obtain fm body where pf: "parseFrontmatter x = (fm, body)" by (cases "parseFrontmatter x")
  define fm3 where "fm3 = assign (assign (assign fm ''status'' (Str ''blocked''))
                 ''blocked_at'' (Str now)) ''blocked_reason'' (Str reason)"
  define newText where "newText = render fm3 body"
  define newName where "newName = buildFilename num ''blocked'' pri slg"
  note pn = blocked_name_differs [OF assms(2)]
  have b: "blockTodo now d fname reason
        = Inr (WriteOp fname newText
               # (if fname \<noteq> newName then [RenameOp fname newName] else []), newName)"
    using assms(1) pf pn(1)
    by (simp add: blockTodo_def readFile_def Let_def fm3_def newText_def newName_def)
  have nn: "newName = num @ ''-blocked-'' @ pri @ ''-'' @ slg @ ''.md''"
    by (simp add: newName_def buildFilename_def)
  have pn2: "parseFilename newName = (num, ''blocked'', pri, slg)"
    unfolding newName_def by (rule pn(2))
  from after_write_rename [OF assms(1), of newText newName] obtain d' where
    d': "apply_ops d (WriteOp fname newText
            # (if fname \<noteq> newName then [RenameOp fname newName] else [])) = Inr d'"
      "map_of d' newName = Some newText" "fname \<noteq> newName \<longrightarrow> map_of d' fname = None"
    by (elim exE conjE)
  have ab: "after_block now d fname reason = Inr d'"
    by (simp only: after_block_def b sum.case prod.case d'(1))
  obtain fm' body' where fm': "parseFrontmatter newText = (fm', body')"
    by (cases "parseFrontmatter newText")
  define t where "t = \<lparr>filename = newName, frontmatter = fm', title = extractTitle body',
     slug = slg, number = num\<rparr>"
  have g: "get_cmd d' newName = Inr t"
    by (simp add: get_cmd_def readFile_def d'(2) fm' pn2 t_def)
  have bg: "block_then_get now d fname reason = Inr t"
    by (simp only: block_then_get_def b sum.case prod.case d'(1) g)
  have f: "filename t = newName" "number t = num" "slug t = slg"
    "frontmatter t = fst (parseFrontmatter newText)"
    by (simp_all add: t_def fm')
  have rt: "plain_reason reason \<and> nl \<notin> set now \<longrightarrow>
          map_of (frontmatter t) ''status'' = Some (Str ''blocked'')
          \<and> map_of (frontmatter t) ''blocked_reason'' = Some (Str reason)"
  proof
    assume h: "plain_reason reason \<and> nl \<notin> set now"
    then have h1: "plain_reason reason" and h2: "nl \<notin> set now" by simp_all
    have "fm3 = assign (assign (assign (fst (parseFrontmatter x)) ''status'' (Str ''blocked''))
                 ''blocked_at'' (Str now)) ''blocked_reason'' (Str reason)"
      by (simp add: fm3_def pf)
    from blocked_frontmatter_reparsed [OF h1 h2 this, of body] obtain fm'' where
      "parseFrontmatter newText = (fm'', body)"
      "map_of fm'' ''status'' = Some (Str ''blocked'')"
      "map_of fm'' ''blocked_reason'' = Some (Str reason)"
      unfolding newText_def by (elim exE conjE)
    then show "map_of (frontmatter t) ''status'' = Some (Str ''blocked'')
          \<and> map_of (frontmatter t) ''blocked_reason'' = Some (Str reason)"
      by (simp add: f(4))
  qed
  show ?thesis
    apply (rule exI [of _ newText])
    apply (rule exI [of _ newName])
    apply (rule exI [of _ d'])
    apply (rule exI [of _ t])
    apply (intro conjI)
    apply (rule b)
    apply (rule nn)
    apply (rule pn2)
    apply (rule ab)
    apply (rule d'(2))
    apply (rule d'(3))
    apply (rule g)
    apply (rule bg)
    apply (rule f(1))
    apply (rule f(2))
    apply (rule f(3))
    apply (rule f(4))
    apply (rule rt)
    done
qed

text \<open>
  C3. The round trip of the claim holds for a reason that the serialiser writes in
  quotes and breaks for reasons it writes bare. With the reason \<^verbatim>\<open>[wip] later\<close>,
  \<^verbatim>\<open>block\<close> and then \<^verbatim>\<open>get\<close> give the status \<^verbatim>\<open>blocked\<close> and the reason. With the reason
  \<^verbatim>\<open>[wip]\<close> the reason comes back as the list of the one word \<^verbatim>\<open>wip\<close>, not as the
  string. With a reason of two lines, \<^verbatim>\<open>x\<close> and \<^verbatim>\<open>status:pending\<close>, the second line is
  read as a line of the front matter: the file is named blocked and \<^verbatim>\<open>get\<close> returns the
  status \<^verbatim>\<open>pending\<close> and the reason \<^verbatim>\<open>x\<close>.
\<close>

theorem blockTodo_bare_reason_not_read_back:
  "block_then_get ''2026-01-01T00:00:00.000Z'' dir_a ''003-pending-p1-c.md'' ''[wip] later''
     = Inr \<lparr>filename = ''003-blocked-p1-c.md'',
             frontmatter = [(''status'', Str ''blocked''), (''priority'', Str ''p1''),
                            (''blocked_at'', Str ''2026-01-01T00:00:00.000Z''),
                            (''blocked_reason'', Str ''[wip] later'')],
             title = ''C'', slug = ''c'', number = ''003''\<rparr>
   \<and> block_then_get ''2026-01-01T00:00:00.000Z'' dir_a ''003-pending-p1-c.md'' ''[wip]''
     = Inr \<lparr>filename = ''003-blocked-p1-c.md'',
             frontmatter = [(''status'', Str ''blocked''), (''priority'', Str ''p1''),
                            (''blocked_at'', Str ''2026-01-01T00:00:00.000Z''),
                            (''blocked_reason'', Arr [''wip''])],
             title = ''C'', slug = ''c'', number = ''003''\<rparr>
   \<and> block_then_get ''2026-01-01T00:00:00.000Z'' dir_a ''003-pending-p1-c.md''
       (''x'' @ [nl] @ ''status:pending'')
     = Inr \<lparr>filename = ''003-blocked-p1-c.md'',
             frontmatter = [(''status'', Str ''pending''), (''priority'', Str ''p1''),
                            (''blocked_at'', Str ''2026-01-01T00:00:00.000Z''),
                            (''blocked_reason'', Str ''x'')],
             title = ''C'', slug = ''c'', number = ''003''\<rparr>"
  by code_simp

section \<open>Reading a file without a front-matter block\<close>

text \<open>
  C10. \<^const>\<open>parseFrontmatter\<close> is a total function of the text: no operation in its body
  can throw on a string, so the model has no error branch and every text has a result.
  Whenever the text does not begin with a block delimited by \<^verbatim>\<open>---\<close> lines, the result
  is the default front matter (status pending, priority p3) with the whole text as body.
\<close>

theorem parseFrontmatter_total_default:
  "(\<exists>fm body. parseFrontmatter txt = (fm, body)) \<and>
   (\<not> has_block txt \<longrightarrow>
      parseFrontmatter txt = ([(''status'', Str ''pending''), (''priority'', Str ''p3'')], txt))"
proof
  show "\<exists>fm body. parseFrontmatter txt = (fm, body)"
    by (cases "parseFrontmatter txt") simp
next
  show "\<not> has_block txt \<longrightarrow>
      parseFrontmatter txt = ([(''status'', Str ''pending''), (''priority'', Str ''p3'')], txt)"
  proof
    assume nb: "\<not> has_block txt"
    have "match_frontmatter txt = None"
    proof (cases "match_frontmatter txt")
      case None
      then show ?thesis .
    next
      case (Some p)
      obtain y b where "p = (y, b)" by (cases p)
      with Some match_frontmatter_Some have "has_block txt"
        unfolding has_block_def by blast
      with nb show ?thesis by simp
    qed
    then show "parseFrontmatter txt =
        ([(''status'', Str ''pending''), (''priority'', Str ''p3'')], txt)"
      by (simp add: parseFrontmatter_def default_frontmatter_def)
  qed
qed

theorem parseFrontmatter_total_default_witness:
  "\<not> has_block ''# Fix the parser'' \<and>
   parseFrontmatter ''# Fix the parser'' =
     ([(''status'', Str ''pending''), (''priority'', Str ''p3'')], ''# Fix the parser'')"
proof -
  have nb: "\<not> has_block ''# Fix the parser''"
    by (simp add: has_block_def)
  with parseFrontmatter_total_default [of "''# Fix the parser''"] show ?thesis
    by blast
qed

end
